theory Spec2Isabelle
  imports Main "HOL-Library.Word"
begin

section \<open>Centrifuge classifier: data model\<close>

text \<open>
  Shallow embedding of \<^verbatim>\<open>classifier.h\<close> (class \<^verbatim>\<open>Classifier<index_t, local_index_t>\<close>).
  Machine integers are words: \<^verbatim>\<open>uint32_t\<close> is \<open>32 word\<close>, \<^verbatim>\<open>size_t\<close> and
  \<^verbatim>\<open>uint64_t\<close> are \<open>64 word\<close> (LP64). The template parameter \<^verbatim>\<open>index_t\<close> is an
  unsigned offset type; it is taken at 64 bits, so that conversions between \<^verbatim>\<open>index_t\<close>
  and \<^verbatim>\<open>size_t\<close> are the identity. Positions in an \<^verbatim>\<open>EList\<close> are natural numbers.
  Assertions (\<^verbatim>\<open>assert\<close>, \<^verbatim>\<open>assert_gt\<close>, ...) are compiled out of a release build and are
  not steps of the model; debug output to \<^verbatim>\<open>cerr\<close> and the metrics counters are left out.
\<close>

unbundle bit_operations_syntax

type_synonym uint32_t = "32 word"
type_synonym uint64_t = "64 word"
type_synonym size_t = "64 word"
type_synonym index_t = "64 word"

text \<open>The two counter records, lines 26 to 48.\<close>

record SpeciesCount =
  sp_id :: uint32_t
  sp_count :: uint32_t
  sp_weightedCount :: uint32_t
  sp_timeStamp :: uint32_t

record GenusCount =
  g_id :: uint32_t
  g_count :: uint32_t
  g_weightedCount :: uint32_t
  g_timeStamp :: uint32_t
  speciesMap :: "SpeciesCount list"

text \<open>
  \<^verbatim>\<open>addHitToGenusMap\<close>, lines 418 to 443: the scan stops at the first entry with the
  genus id and credits it unless its time stamp is the round \<open>hi\<close>; the stamp is a
  \<^verbatim>\<open>uint32_t\<close>, converted for the comparison with the \<^verbatim>\<open>size_t\<close> round and cut to 32
  bits when the round is stored. When no entry has the id a new one is appended. The
  result is the map with the index of the entry.
\<close>

function genusLoop :: "GenusCount list \<Rightarrow> uint32_t \<Rightarrow> size_t \<Rightarrow> uint32_t \<Rightarrow> nat
    \<Rightarrow> GenusCount list \<times> nat" where
  "genusLoop genusMap genusID hi addWeight genusIdx =
     (if genusIdx < length genusMap then
        (if g_id (genusMap ! genusIdx) = genusID then
           (if ucast (g_timeStamp (genusMap ! genusIdx)) \<noteq> hi then
              (genusMap[genusIdx := (genusMap ! genusIdx)
                 \<lparr>g_count := g_count (genusMap ! genusIdx) + 1,
                  g_weightedCount := g_weightedCount (genusMap ! genusIdx) + addWeight,
                  g_timeStamp := ucast hi\<rparr>], genusIdx)
            else (genusMap, genusIdx))
         else genusLoop genusMap genusID hi addWeight (Suc genusIdx))
      else (genusMap, genusIdx))"
  by pat_completeness auto
termination
  by (relation "measure (\<lambda>(genusMap, genusID, hi, addWeight, genusIdx). length genusMap - genusIdx)") auto

definition addHitToGenusMap :: "GenusCount list \<Rightarrow> uint32_t \<Rightarrow> size_t \<Rightarrow> uint32_t
    \<Rightarrow> GenusCount list \<times> nat" where
  "addHitToGenusMap genusMap genusID hi addWeight =
     (case genusLoop genusMap genusID hi addWeight 0 of
        (genusMap', genusIdx) \<Rightarrow>
          if genusIdx \<ge> length genusMap' then
            (genusMap' @ [\<lparr>g_id = genusID, g_count = 1, g_weightedCount = addWeight,
                           g_timeStamp = ucast hi, speciesMap = []\<rparr>], genusIdx)
          else (genusMap', genusIdx))"

text \<open>
  \<^verbatim>\<open>addHitToSpeciesMap\<close>, lines 446 to 477: the same scan over the species of one genus
  entry, returning the updated genus entry and \<^verbatim>\<open>newScore\<close>.
\<close>

function speciesLoop :: "GenusCount \<Rightarrow> uint32_t \<Rightarrow> size_t \<Rightarrow> uint32_t \<Rightarrow> nat
    \<Rightarrow> GenusCount \<times> uint32_t \<times> bool" where
  "speciesLoop genusCount speciesID hi addWeight mi =
     (if mi < length (speciesMap genusCount) then
        (if sp_id (speciesMap genusCount ! mi) = speciesID then
           (if ucast (sp_timeStamp (speciesMap genusCount ! mi)) \<noteq> hi then
              (genusCount\<lparr>speciesMap := (speciesMap genusCount)[mi := (speciesMap genusCount ! mi)
                 \<lparr>sp_count := sp_count (speciesMap genusCount ! mi) + 1,
                  sp_weightedCount := sp_weightedCount (speciesMap genusCount ! mi) + addWeight,
                  sp_timeStamp := ucast hi\<rparr>]\<rparr>,
               g_weightedCount genusCount, True)
            else (genusCount, 0, True))
         else speciesLoop genusCount speciesID hi addWeight (Suc mi))
      else (genusCount, 0, False))"
  by pat_completeness auto
termination
  by (relation "measure (\<lambda>(genusCount, speciesID, hi, addWeight, mi). length (speciesMap genusCount) - mi)") auto

definition addHitToSpeciesMap :: "GenusCount \<Rightarrow> uint32_t \<Rightarrow> size_t \<Rightarrow> uint32_t
    \<Rightarrow> GenusCount \<times> uint32_t" where
  "addHitToSpeciesMap genusCount speciesID hi addWeight =
     (case speciesLoop genusCount speciesID hi addWeight 0 of
        (genusCount', newScore, found) \<Rightarrow>
          if \<not> found then
            (genusCount'\<lparr>speciesMap := speciesMap genusCount' @
               [\<lparr>sp_id = speciesID, sp_count = 1, sp_weightedCount = addWeight,
                 sp_timeStamp = ucast hi\<rparr>]\<rparr>, addWeight)
          else (genusCount', newScore))"



section \<open>External collaborators\<close>

text \<open>
  The types below are declared in headers that are not part of this file
  (\<^verbatim>\<open>hi_aligner.h\<close>); they are modelled with the fields the classifier reads and writes.
  \<^verbatim>\<open>Coord::init(ref, off, fw)\<close> stores its three arguments.
\<close>

record Coord =
  c_ref :: uint64_t
  c_off :: uint64_t
  c_fw :: bool

text \<open>
  Modelled from the spec: \<^verbatim>\<open>BWTHit\<close> (a partial hit) is one seed match: the suffix-array range
  \<open>[top, bot)\<close>, the match length, its offset into the read and the coordinates resolved
  for it. \<^verbatim>\<open>len()\<close> is the match length and \<^verbatim>\<open>size()\<close> the size of the range.
\<close>

record BWTHit =
  h_top :: index_t
  h_bot :: index_t
  h_len :: index_t
  h_bwoff :: index_t
  h_coords :: "Coord list"

definition len :: "BWTHit \<Rightarrow> index_t" where
  "len h = h_len h"

definition size_hit :: "BWTHit \<Rightarrow> index_t" where
  "size_hit h = h_bot h - h_top h"

text \<open>
  Modelled from the spec: \<^verbatim>\<open>ReadBWTHit\<close> is the ordered sequence of partial hits of one read
  and strand, with a completion flag and the current scan offset; \<^verbatim>\<open>setOffset\<close> moves the
  scan offset, \<^verbatim>\<open>offsetSize()\<close> is the number of partial hits.
\<close>

record ReadBWTHit =
  r_fw :: bool
  r_len :: index_t
  r_cur :: index_t
  r_done :: bool
  partialHits :: "BWTHit list"

definition setOffset :: "ReadBWTHit \<Rightarrow> index_t \<Rightarrow> ReadBWTHit" where
  "setOffset hit offset = hit\<lparr>r_cur := offset\<rparr>"

definition offsetSize :: "ReadBWTHit \<Rightarrow> nat" where
  "offsetSize hit = length (partialHits hit)"

text \<open>
  An element of \<^verbatim>\<open>_genomeHits\<close>. The classifier clears that list and reads its size; it
  never looks into an element.
\<close>

datatype GenomeHit = GenomeHit

text \<open>The result record handed to the sink: \<^verbatim>\<open>rs.init(asc, speciesID, genusCount.id)\<close>.\<close>

record AlnRes =
  a_score :: uint64_t
  a_primary :: uint32_t
  a_context :: uint32_t

text \<open>
  The routines the classifier calls but does not define, as parameters:
  the exact-match primitive \<^verbatim>\<open>partialSearch\<close> (for mate \<open>rdi\<close> and strand flag \<open>fw\<close>, it updates
  the strand's hit record and the random source), the walk from an element of a
  suffix-array range to its reference (\<^verbatim>\<open>_sas.init(top, rdlen, ...)\<close> followed by
  \<^verbatim>\<open>_gws.advanceElement(off, ...)\<close>, giving \<^verbatim>\<open>wr.toff\<close>), \<^verbatim>\<open>EList::shufflePortion\<close>,
  \<^verbatim>\<open>EList::sort\<close> with a comparator, \<^verbatim>\<open>extractID(_refnames[r])\<close> and the length of each
  mate's read.
\<close>

record 'r externals =
  partialSearch :: "nat \<Rightarrow> bool \<Rightarrow> ReadBWTHit \<Rightarrow> 'r \<Rightarrow> ReadBWTHit \<times> 'r"
  advanceElement :: "index_t \<Rightarrow> index_t \<Rightarrow> index_t \<Rightarrow> index_t"
  shufflePortion :: "Coord list \<Rightarrow> 'r \<Rightarrow> Coord list \<times> 'r"
  sortWith :: "(BWTHit \<Rightarrow> BWTHit \<Rightarrow> bool) \<Rightarrow> BWTHit list \<Rightarrow> BWTHit list"
  extractID :: "uint64_t \<Rightarrow> uint64_t"
  readLength :: "nat \<Rightarrow> index_t"

section \<open>Classifier state\<close>

text \<open>
  \<^verbatim>\<open>_hits[2][2]\<close>: one hit record per mate and strand.
\<close>

type_synonym hits_t = "(ReadBWTHit \<times> ReadBWTHit) \<times> (ReadBWTHit \<times> ReadBWTHit)"

definition getHit :: "hits_t \<Rightarrow> nat \<Rightarrow> nat \<Rightarrow> ReadBWTHit" where
  "getHit H rdi fwi =
     (if rdi = 0 then (if fwi = 0 then fst (fst H) else snd (fst H))
      else (if fwi = 0 then fst (snd H) else snd (snd H)))"

definition setHit :: "hits_t \<Rightarrow> nat \<Rightarrow> nat \<Rightarrow> ReadBWTHit \<Rightarrow> hits_t" where
  "setHit H rdi fwi h =
     (if rdi = 0 then (if fwi = 0 then ((h, snd (fst H)), snd H) else ((fst (fst H), h), snd H))
      else (if fwi = 0 then (fst H, (h, snd (snd H))) else (fst H, (fst (snd H), h))))"

datatype error = OutOfRange

section \<open>Seed search\<close>

text \<open>
  Lines 336 to 344: the offset of a strand that is not done is moved according to the
  length of its most recent partial hit.
\<close>

definition adjustOffset :: "index_t \<Rightarrow> index_t \<Rightarrow> ReadBWTHit \<Rightarrow> BWTHit \<Rightarrow> ReadBWTHit" where
  "adjustOffset minHitLen increment hit lastHit =
     (if len lastHit > increment then
        (if len lastHit < minHitLen then setOffset hit (r_cur hit - increment)
         else setOffset hit (r_cur hit + 1))
      else hit)"

record 'r search_state =
  s_hits :: hits_t
  s_rnd :: 'r
  s_done :: "bool \<times> bool"
  s_cur :: "size_t \<times> size_t"

definition sel2 :: "'a \<times> 'a \<Rightarrow> nat \<Rightarrow> 'a" where
  "sel2 p i = (if i = 0 then fst p else snd p)"

definition upd2 :: "'a \<times> 'a \<Rightarrow> nat \<Rightarrow> 'a \<Rightarrow> 'a \<times> 'a" where
  "upd2 p i v = (if i = 0 then (v, snd p) else (fst p, v))"

text \<open>
  One pass of the body of \<^verbatim>\<open>for (fwi = 0; fwi < 2; fwi++)\<close>. Reading the last partial hit
  of a strand that has none is an out-of-range access.
\<close>

definition strandStep :: "'r externals \<Rightarrow> index_t \<Rightarrow> index_t \<Rightarrow> index_t \<Rightarrow> nat \<Rightarrow> nat
    \<Rightarrow> 'r search_state \<Rightarrow> error + 'r search_state" where
  "strandStep ext minHitLen increment rdlen rdi fwi s =
     (if sel2 (s_done s) fwi then Inr s
      else
        (case partialSearch ext rdi (fwi = 0) (getHit (s_hits s) rdi fwi) (s_rnd s) of
           (hit1, rnd1) \<Rightarrow>
             if r_done hit1 then
               Inr (s\<lparr>s_hits := setHit (s_hits s) rdi fwi hit1, s_rnd := rnd1,
                      s_done := upd2 (s_done s) fwi True,
                      s_cur := upd2 (s_cur s) fwi rdlen\<rparr>)
             else if offsetSize hit1 = 0 then Inl OutOfRange
             else
               (let hit2 = adjustOffset minHitLen increment hit1
                             (partialHits hit1 ! (offsetSize hit1 - 1))
                in if r_cur hit2 + minHitLen \<ge> rdlen then
                     Inr (s\<lparr>s_hits := setHit (s_hits s) rdi fwi (hit2\<lparr>r_done := True\<rparr>),
                            s_rnd := rnd1,
                            s_done := upd2 (s_done s) fwi True,
                            s_cur := upd2 (s_cur s) fwi (r_cur hit1)\<rparr>)
                   else
                     Inr (s\<lparr>s_hits := setHit (s_hits s) rdi fwi hit2, s_rnd := rnd1,
                            s_cur := upd2 (s_cur s) fwi (r_cur hit1)\<rparr>))))"

text \<open>Lines 351 to 357: the strand that lags by more than \<open>maxDiff\<close> is given up.\<close>

definition abandonLagging :: "size_t \<Rightarrow> nat \<Rightarrow> 'r search_state \<Rightarrow> 'r search_state" where
  "abandonLagging maxDiff rdi s =
     (if fst (s_cur s) > snd (s_cur s) + maxDiff then
        s\<lparr>s_hits := setHit (s_hits s) rdi 1 ((getHit (s_hits s) rdi 1)\<lparr>r_done := True\<rparr>),
          s_done := upd2 (s_done s) 1 True\<rparr>
      else if snd (s_cur s) > fst (s_cur s) + maxDiff then
        s\<lparr>s_hits := setHit (s_hits s) rdi 0 ((getHit (s_hits s) rdi 0)\<lparr>r_done := True\<rparr>),
          s_done := upd2 (s_done s) 0 True\<rparr>
      else s)"

definition jointStep :: "'r externals \<Rightarrow> index_t \<Rightarrow> index_t \<Rightarrow> index_t \<Rightarrow> size_t \<Rightarrow> nat
    \<Rightarrow> 'r search_state \<Rightarrow> error + 'r search_state" where
  "jointStep ext minHitLen increment rdlen maxDiff rdi s =
     (case strandStep ext minHitLen increment rdlen rdi 0 s of
        Inl e \<Rightarrow> Inl e
      | Inr s1 \<Rightarrow>
          (case strandStep ext minHitLen increment rdlen rdi 1 s1 of
             Inl e \<Rightarrow> Inl e
           | Inr s2 \<Rightarrow> Inr (abandonLagging maxDiff rdi s2)))"

text \<open>
  \<^verbatim>\<open>while (!done[0] || !done[1])\<close>: whether the loop ends depends on the primitive, so
  the loop is a partial function and \<open>None\<close> stands for a search that never returns.
\<close>

partial_function (option) searchLoop :: "'r externals \<Rightarrow> index_t \<Rightarrow> index_t \<Rightarrow> index_t
    \<Rightarrow> size_t \<Rightarrow> nat \<Rightarrow> 'r search_state \<Rightarrow> (error + 'r search_state) option" where
  "searchLoop ext minHitLen increment rdlen maxDiff rdi s =
     (if \<not> fst (s_done s) \<or> \<not> snd (s_done s) then
        (case jointStep ext minHitLen increment rdlen maxDiff rdi s of
           Inl e \<Rightarrow> Some (Inl e)
         | Inr s' \<Rightarrow> searchLoop ext minHitLen increment rdlen maxDiff rdi s')
      else Some (Inr s))"

definition searchForwardAndReverse :: "'r externals \<Rightarrow> index_t \<Rightarrow> nat \<Rightarrow> index_t
    \<Rightarrow> hits_t \<Rightarrow> 'r \<Rightarrow> (error + hits_t \<times> 'r) option" where
  "searchForwardAndReverse ext minHitLen rdi increment H r =
     (let rdlen = readLength ext rdi;
          maxDiff = (if rdlen div 2 > 2 * minHitLen then rdlen div 2 else 2 * minHitLen)
      in case searchLoop ext minHitLen increment rdlen maxDiff rdi
                \<lparr>s_hits = H, s_rnd = r, s_done = (False, False), s_cur = (0, 0)\<rparr> of
           None \<Rightarrow> None
         | Some (Inl e) \<Rightarrow> Some (Inl e)
         | Some (Inr s) \<Rightarrow> Some (Inr (s_hits s, s_rnd s)))"


section \<open>Strand selection\<close>

text \<open>Lines 366 to 370: total length and number of the partial hits that qualify.\<close>

function hitLengthLoop :: "index_t \<Rightarrow> ReadBWTHit \<Rightarrow> nat \<Rightarrow> index_t \<times> index_t
    \<Rightarrow> index_t \<times> index_t" where
  "hitLengthLoop minHitLen hit i (totalLen, numHits) =
     (if i < offsetSize hit then
        (if len (partialHits hit ! i) < minHitLen then
           hitLengthLoop minHitLen hit (Suc i) (totalLen, numHits)
         else hitLengthLoop minHitLen hit (Suc i)
                (totalLen + len (partialHits hit ! i), numHits + 1))
      else (totalLen, numHits))"
  by pat_completeness auto
termination
  by (relation "measure (\<lambda>(minHitLen, hit, i, acc). offsetSize hit - i)") auto

definition strandAverage :: "index_t \<Rightarrow> ReadBWTHit \<Rightarrow> index_t \<Rightarrow> index_t \<times> index_t" where
  "strandAverage minHitLen hit total0 =
     (case hitLengthLoop minHitLen hit 0 (total0, 0) of
        (totalLen, numHits) \<Rightarrow> (totalLen, if numHits > 0 then totalLen div numHits else 0))"

text \<open>
  The result is the strand index \<open>fwi\<close> of the returned reference \<^verbatim>\<open>_hits[rdi][fwi]\<close>,
  with the updated \<^verbatim>\<open>totalHitLength\<close>.
\<close>

definition getForwardOrReverseHit :: "index_t \<Rightarrow> hits_t \<Rightarrow> nat \<Rightarrow> index_t \<times> index_t
    \<Rightarrow> nat \<times> (index_t \<times> index_t)" where
  "getForwardOrReverseHit minHitLen H rdi totalHitLength =
     (case strandAverage minHitLen (getHit H rdi 0) (fst totalHitLength) of
        (total0, avg0) \<Rightarrow>
          (case strandAverage minHitLen (getHit H rdi 1) (snd totalHitLength) of
             (total1, avg1) \<Rightarrow>
               ((if avg0 > avg1 then 0 else 1), (total0, total1))))"

section \<open>Coordinate resolution\<close>

function walkLoop :: "'r externals \<Rightarrow> index_t \<Rightarrow> index_t \<Rightarrow> bool \<Rightarrow> index_t \<Rightarrow> nat
    \<Rightarrow> Coord list \<Rightarrow> Coord list" where
  "walkLoop ext top' rdlen fw nelt off coords =
     (if off < unat nelt then
        walkLoop ext top' rdlen fw nelt (Suc off)
          (coords @ [\<lparr>c_ref = advanceElement ext top' rdlen (of_nat off), c_off = 0, c_fw = fw\<rparr>])
      else coords)"
  by pat_completeness auto
termination
  by (relation "measure (\<lambda>(ext, top', rdlen, fw, nelt, off, coords). unat nelt - off)") auto

definition getGenomeIdx :: "'r externals \<Rightarrow> index_t \<Rightarrow> index_t \<Rightarrow> bool \<Rightarrow> index_t
    \<Rightarrow> index_t \<Rightarrow> index_t \<Rightarrow> Coord list" where
  "getGenomeIdx ext top' bot' fw maxelt rdoff rdlen =
     (let nelt = min (bot' - top') maxelt
      in walkLoop ext top' rdlen fw nelt 0 [])"

text \<open>
  \<^verbatim>\<open>getCoords\<close> fills \<^verbatim>\<open>partialHit._coords\<close> and returns a reference to it: the result is
  the updated hit record together with the coordinates.
\<close>

definition getCoords :: "'r externals \<Rightarrow> ReadBWTHit \<Rightarrow> nat \<Rightarrow> index_t \<Rightarrow> GenomeHit list
    \<Rightarrow> ReadBWTHit \<times> Coord list" where
  "getCoords ext hit hi maxGenomeHitSize gHits =
     (let partialHit = partialHits hit ! hi;
          coords = getGenomeIdx ext (h_top partialHit) (h_bot partialHit) (r_fw hit = False)
                     (maxGenomeHitSize - of_nat (length gHits))
                     (r_len hit - h_bwoff partialHit - h_len partialHit)
                     (h_len partialHit)
      in (hit\<lparr>partialHits := (partialHits hit)[hi := partialHit\<lparr>h_coords := coords\<rparr>]\<rparr>, coords))"

section \<open>The classification driver\<close>

text \<open>
  The members \<^verbatim>\<open>_genusMap\<close>, \<^verbatim>\<open>_genomeHits\<close> and \<^verbatim>\<open>_hits\<close>, the arguments \<^verbatim>\<open>rnd\<close> and
  \<^verbatim>\<open>sink\<close> (the list of \<^verbatim>\<open>report(mate, rs)\<close> calls made so far), and the locals of
  \<^verbatim>\<open>go\<close>. The local reference \<^verbatim>\<open>hit\<close> is kept as the referenced object and stored back
  into \<^verbatim>\<open>_hits\<close> when the mate is finished.
\<close>

record 'r go_state =
  genusMap :: "GenusCount list"
  genomeHits :: "GenomeHit list"
  hits :: hits_t
  rnd :: 'r
  sink :: "(int \<times> AlnRes) list"
  bestScore :: size_t
  secondBestScore :: size_t
  totalHitLength :: "index_t \<times> index_t"
  hit_obj :: ReadBWTHit
  usedPortion :: size_t
  genomeHitCnt :: size_t

definition compareBWTHits :: "BWTHit \<Rightarrow> BWTHit \<Rightarrow> bool" where
  "compareBWTHits a b =
     (if size_hit a < size_hit b then True
      else if size_hit a > size_hit b then False
      else if len b < len a then True
      else if len b > len a then False
      else False)"

text \<open>Line 158: the weight of a partial hit of length \<open>hit_len\<close>.\<close>

definition addWeightOf :: "size_t \<Rightarrow> uint32_t" where
  "addWeightOf hit_len = ucast ((hit_len - 15) * (hit_len - 15))"

text \<open>
  Lines 151 to 155: the packed id of the reference a coordinate lies on; the high 32 bits
  are the species id and the low 32 bits the genus id.
\<close>

definition speciesIDOf :: "'r externals \<Rightarrow> Coord \<Rightarrow> uint32_t" where
  "speciesIDOf ext coord = ucast (drop_bit 32 (extractID ext (c_ref coord)))"

definition genusIDOf :: "'r externals \<Rightarrow> Coord \<Rightarrow> uint32_t" where
  "genusIDOf ext coord = ucast (extractID ext (c_ref coord) AND 0xffffffff)"

text \<open>Lines 148 to 175: one coordinate is credited to its genus and species.\<close>

definition creditCoord :: "'r externals \<Rightarrow> size_t \<Rightarrow> nat \<Rightarrow> 'r go_state \<Rightarrow> Coord
    \<Rightarrow> 'r go_state" where
  "creditCoord ext hit_len hi st coord =
     (let speciesID = speciesIDOf ext coord;
          genusID = genusIDOf ext coord;
          addWeight = addWeightOf hit_len
      in case addHitToGenusMap (genusMap st) genusID (of_nat hi) addWeight of
           (genusMap1, genusIdx) \<Rightarrow>
             (case addHitToSpeciesMap (genusMap1 ! genusIdx) speciesID (of_nat hi) addWeight of
                (genusCount, newScore) \<Rightarrow>
                  (let st1 = st\<lparr>genusMap := genusMap1[genusIdx := genusCount]\<rparr>
                   in if ucast newScore > bestScore st1 then
                        st1\<lparr>secondBestScore := bestScore st1, bestScore := ucast newScore\<rparr>
                      else if ucast newScore > secondBestScore st1 then
                        st1\<lparr>secondBestScore := ucast newScore\<rparr>
                      else st1)))"

function coordLoop :: "'r externals \<Rightarrow> index_t \<Rightarrow> size_t \<Rightarrow> nat \<Rightarrow> Coord list \<Rightarrow> nat
    \<Rightarrow> 'r go_state \<Rightarrow> 'r go_state" where
  "coordLoop ext maxGenomeHitSize hit_len hi coords k st =
     (if k < length coords \<and> genomeHitCnt st < maxGenomeHitSize then
        coordLoop ext maxGenomeHitSize hit_len hi coords (Suc k)
          ((creditCoord ext hit_len hi st (coords ! k))\<lparr>genomeHitCnt := genomeHitCnt st + 1\<rparr>)
      else st)"
  by pat_completeness auto
termination
  by (relation "measure (\<lambda>(ext, maxGenomeHitSize, hit_len, hi, coords, k, st). length coords - k)")
    auto

text \<open>
  Lines 139 to 176 for a partial hit whose coordinates are not empty: the used portion
  grows, the coordinates are shuffled when they do not all fit, and they are credited.
\<close>

definition processHit :: "'r externals \<Rightarrow> index_t \<Rightarrow> size_t \<Rightarrow> nat \<Rightarrow> Coord list
    \<Rightarrow> 'r go_state \<Rightarrow> 'r go_state" where
  "processHit ext maxGenomeHitSize hit_len hi coords st =
     (let st1 = st\<lparr>usedPortion := usedPortion st + hit_len\<rparr>;
          st2 = (if genomeHitCnt st1 + of_nat (length coords) > maxGenomeHitSize then
                   (case shufflePortion ext coords (rnd st1) of
                      (coords', rnd') \<Rightarrow>
                        st1\<lparr>rnd := rnd',
                            hit_obj := (hit_obj st1)\<lparr>partialHits := (partialHits (hit_obj st1))
                              [hi := (partialHits (hit_obj st1) ! hi)\<lparr>h_coords := coords'\<rparr>]\<rparr>\<rparr>)
                 else st1)
      in coordLoop ext maxGenomeHitSize hit_len hi
           (h_coords (partialHits (hit_obj st2) ! hi)) 0 st2)"

text \<open>Line 183: the score gap against the square of what is left of the read.\<close>

definition earlyStop :: "'r go_state \<Rightarrow> bool" where
  "earlyStop st =
     (bestScore st > secondBestScore st +
        (sel2 (totalHitLength st) (if r_fw (hit_obj st) = False then 1 else 0)
           - usedPortion st - 15) *
        (sel2 (totalHitLength st) (if r_fw (hit_obj st) = False then 1 else 0)
           - usedPortion st - 15))"

text \<open>Lines 127 to 186: the loop over the partial hits of the chosen strand.\<close>

function hitLoop :: "'r externals \<Rightarrow> index_t \<Rightarrow> index_t \<Rightarrow> bool \<Rightarrow> nat \<Rightarrow> nat
    \<Rightarrow> 'r go_state \<Rightarrow> 'r go_state" where
  "hitLoop ext minHitLen maxGenomeHitSize last_round offsetSz hi st =
     (if hi < offsetSz then
        (let hit_len = len (partialHits (hit_obj st) ! hi)
         in if hit_len < minHitLen then
              hitLoop ext minHitLen maxGenomeHitSize last_round offsetSz (Suc hi) st
            else
              (case getCoords ext (hit_obj st) hi maxGenomeHitSize (genomeHits st) of
                 (hit', coords) \<Rightarrow>
                   if coords = [] then
                     hitLoop ext minHitLen maxGenomeHitSize last_round offsetSz (Suc hi)
                       (st\<lparr>hit_obj := hit'\<rparr>)
                   else
                     (let st' = processHit ext maxGenomeHitSize hit_len hi coords
                                  (st\<lparr>hit_obj := hit'\<rparr>)
                      in if genomeHitCnt st' \<ge> maxGenomeHitSize then st'
                         else if last_round \<and> earlyStop st' then st'
                         else hitLoop ext minHitLen maxGenomeHitSize last_round offsetSz
                                (Suc hi) st')))
      else st)"
  by pat_completeness auto
termination
  by (relation "measure (\<lambda>(ext, minHitLen, maxGenomeHitSize, last_round, offsetSz, hi, st).
        offsetSz - hi)") auto

text \<open>Lines 103 to 186: one mate.\<close>

definition mateBody :: "'r externals \<Rightarrow> index_t \<Rightarrow> index_t \<Rightarrow> bool \<Rightarrow> nat \<Rightarrow> 'r go_state
    \<Rightarrow> (error + 'r go_state) option" where
  "mateBody ext minHitLen maxGenomeHitSize paired rdi st =
     (case searchForwardAndReverse ext minHitLen rdi 10 (hits st) (rnd st) of
        None \<Rightarrow> None
      | Some (Inl e) \<Rightarrow> Some (Inl e)
      | Some (Inr (H, r)) \<Rightarrow>
          (case getForwardOrReverseHit minHitLen H rdi (0, 0) of
             (fwi, totals) \<Rightarrow>
               (let chosen = getHit H rdi fwi;
                    offsetSz = offsetSize chosen;
                    sorted = chosen\<lparr>partialHits := sortWith ext compareBWTHits (partialHits chosen)\<rparr>;
                    st1 = st\<lparr>hits := H, rnd := r, genomeHits := [], totalHitLength := totals,
                             hit_obj := sorted, usedPortion := 0, genomeHitCnt := 0\<rparr>;
                    st2 = hitLoop ext minHitLen maxGenomeHitSize
                            (rdi = (if paired then 1 else 0)) offsetSz 0 st1
                in Some (Inr (st2\<lparr>hits := setHit H rdi fwi (hit_obj st2)\<rparr>)))))"

function mateLoop :: "'r externals \<Rightarrow> index_t \<Rightarrow> index_t \<Rightarrow> bool \<Rightarrow> nat \<Rightarrow> 'r go_state
    \<Rightarrow> (error + 'r go_state) option" where
  "mateLoop ext minHitLen maxGenomeHitSize paired rdi st =
     (if rdi < (if paired then 2 else 1) then
        (case mateBody ext minHitLen maxGenomeHitSize paired rdi st of
           None \<Rightarrow> None
         | Some (Inl e) \<Rightarrow> Some (Inl e)
         | Some (Inr st') \<Rightarrow> mateLoop ext minHitLen maxGenomeHitSize paired (Suc rdi) st')
      else Some (Inr st))"
  by pat_completeness auto
termination
  by (relation "measure (\<lambda>(ext, minHitLen, maxGenomeHitSize, paired, rdi, st). 2 - rdi)")
    (auto split: if_splits)

text \<open>Lines 193 to 210: every species entry of every genus entry is reported.\<close>

function speciesReportLoop :: "GenusCount \<Rightarrow> nat \<Rightarrow> (int \<times> AlnRes) list
    \<Rightarrow> (int \<times> AlnRes) list" where
  "speciesReportLoop genusCount mi snk =
     (if mi < length (speciesMap genusCount) then
        speciesReportLoop genusCount (Suc mi)
          (snk @ [(0, \<lparr>a_score = ucast (g_weightedCount genusCount
                                   + sp_weightedCount (speciesMap genusCount ! mi)),
                        a_primary = sp_id (speciesMap genusCount ! mi),
                        a_context = g_id genusCount\<rparr>)])
      else snk)"
  by pat_completeness auto
termination
  by (relation "measure (\<lambda>(genusCount, mi, snk). length (speciesMap genusCount) - mi)") auto

function genusReportLoop :: "GenusCount list \<Rightarrow> nat \<Rightarrow> (int \<times> AlnRes) list
    \<Rightarrow> (int \<times> AlnRes) list" where
  "genusReportLoop gm gi snk =
     (if gi < length gm then
        genusReportLoop gm (Suc gi) (speciesReportLoop (gm ! gi) 0 snk)
      else snk)"
  by pat_completeness auto
termination
  by (relation "measure (\<lambda>(gm, gi, snk). length gm - gi)") auto

text \<open>
  \<^verbatim>\<open>go\<close>: the genus map is cleared, the mates are processed, the results are reported
  and 0 is returned.
\<close>

definition go :: "'r externals \<Rightarrow> index_t \<Rightarrow> index_t \<Rightarrow> bool \<Rightarrow> 'r go_state
    \<Rightarrow> (error + 'r go_state \<times> int) option" where
  "go ext minHitLen khits paired st =
     (case mateLoop ext minHitLen khits paired 0
             (st\<lparr>genusMap := [], bestScore := 0, secondBestScore := 0\<rparr>) of
        None \<Rightarrow> None
      | Some (Inl e) \<Rightarrow> Some (Inl e)
      | Some (Inr st') \<Rightarrow>
          Some (Inr (st'\<lparr>sink := genusReportLoop (genusMap st') 0 (sink st')\<rparr>, 0)))"

section \<open>Looking entries up\<close>

text \<open>
  Both maps are scanned from the front and the first entry with the wanted id is the one
  that is read and updated. \<open>genusIndex\<close> and \<open>speciesIndex\<close> give the position of that
  entry (the length of the list when there is none), \<open>genusEntry\<close> and \<open>speciesEntry\<close>
  the entry itself.
\<close>

definition genusIndex :: "GenusCount list \<Rightarrow> uint32_t \<Rightarrow> nat" where
  "genusIndex gm g = length (takeWhile (\<lambda>e. g_id e \<noteq> g) gm)"

definition speciesIndex :: "SpeciesCount list \<Rightarrow> uint32_t \<Rightarrow> nat" where
  "speciesIndex sm s = length (takeWhile (\<lambda>e. sp_id e \<noteq> s) sm)"

definition genusEntry :: "GenusCount list \<Rightarrow> uint32_t \<Rightarrow> GenusCount option" where
  "genusEntry gm g = find (\<lambda>e. g_id e = g) gm"

definition speciesEntry :: "GenusCount \<Rightarrow> uint32_t \<Rightarrow> SpeciesCount option" where
  "speciesEntry gc s = find (\<lambda>e. sp_id e = s) (speciesMap gc)"

text \<open>
  What a claim observes of an entry: its count, its weighted count and its time stamp.
  \<open>creditView hi w v\<close> is the entry after one credit of weight \<open>w\<close> in round \<open>hi\<close>: a new
  entry when there was none, one more count when the stamp differs from the round, no
  change when the stamp is the round.
\<close>

type_synonym view = "uint32_t \<times> uint32_t \<times> uint32_t"

definition genusView :: "GenusCount list \<Rightarrow> uint32_t \<Rightarrow> view option" where
  "genusView gm g =
     map_option (\<lambda>e. (g_count e, g_weightedCount e, g_timeStamp e)) (genusEntry gm g)"

definition speciesView :: "GenusCount list \<Rightarrow> uint32_t \<Rightarrow> uint32_t \<Rightarrow> view option" where
  "speciesView gm g s =
     (case genusEntry gm g of
        None \<Rightarrow> None
      | Some e \<Rightarrow>
          map_option (\<lambda>x. (sp_count x, sp_weightedCount x, sp_timeStamp x)) (speciesEntry e s))"

definition creditView :: "size_t \<Rightarrow> uint32_t \<Rightarrow> view option \<Rightarrow> view" where
  "creditView hi w v =
     (case v of
        None \<Rightarrow> (1, w, ucast hi)
      | Some (c, wc, ts) \<Rightarrow> if ucast ts \<noteq> hi then (c + 1, wc + w, ucast hi) else (c, wc, ts))"

definition viewCount :: "view option \<Rightarrow> uint32_t" where
  "viewCount v = (case v of None \<Rightarrow> 0 | Some (c, wc, ts) \<Rightarrow> c)"

definition viewWeight :: "view option \<Rightarrow> uint32_t" where
  "viewWeight v = (case v of None \<Rightarrow> 0 | Some (c, wc, ts) \<Rightarrow> wc)"

section \<open>The specification's reading of strand averages and of the score gap\<close>

text \<open>
  Section 4.2 of the specification: per strand, the lengths of the partial hits of length
  at least \<open>minHitLen\<close> are summed and counted, and the average is the sum divided by the
  count, 0 when there is none. \<open>spec_average_idx\<close> takes sum, count and quotient in
  \<^verbatim>\<open>index_t\<close>, the type of a length; \<open>spec_average\<close> reads the lengths as natural
  numbers.
\<close>

definition spec_average_idx :: "index_t \<Rightarrow> ReadBWTHit \<Rightarrow> index_t" where
  "spec_average_idx minHitLen hit =
     (if filter (\<lambda>h. minHitLen \<le> len h) (partialHits hit) = [] then 0
      else sum_list (map len (filter (\<lambda>h. minHitLen \<le> len h) (partialHits hit)))
             div of_nat (length (filter (\<lambda>h. minHitLen \<le> len h) (partialHits hit))))"

definition spec_qualifying :: "index_t \<Rightarrow> ReadBWTHit \<Rightarrow> nat list" where
  "spec_qualifying minHitLen hit =
     map (\<lambda>h. unat (len h)) (filter (\<lambda>h. minHitLen \<le> len h) (partialHits hit))"

definition spec_average :: "index_t \<Rightarrow> ReadBWTHit \<Rightarrow> nat" where
  "spec_average minHitLen hit =
     (if spec_qualifying minHitLen hit = [] then 0
      else sum_list (spec_qualifying minHitLen hit) div length (spec_qualifying minHitLen hit))"

text \<open>
  Section 4.5 (d): the score gap \<open>bestScore - secondBestScore\<close> exceeds the square of the
  remaining qualifying length minus 15. The remaining length is the total qualifying
  length of the chosen strand less the portion already used; the numbers are integers,
  so that a remaining length below 15 gives a negative number whose square is positive.
\<close>

definition spec_remaining :: "'r go_state \<Rightarrow> int" where
  "spec_remaining st =
     uint (sel2 (totalHitLength st) (if r_fw (hit_obj st) = False then 1 else 0))
       - uint (usedPortion st)"

definition spec_gapExceeds :: "'r go_state \<Rightarrow> bool" where
  "spec_gapExceeds st =
     (uint (bestScore st) - uint (secondBestScore st) > (spec_remaining st - 15)\<^sup>2)"

text \<open>
  Section 4.5, last paragraph: one result per species entry of every genus entry, with
  the species id, the genus id and the sum of the two weighted counts. The sum is the
  sum of the two numbers; it is below \<open>2^33\<close> and fits the 64-bit score.
\<close>

definition spec_results :: "GenusCount list \<Rightarrow> (int \<times> AlnRes) list" where
  "spec_results gm =
     concat (map (\<lambda>g. map (\<lambda>s. (0, \<lparr>a_score = of_nat (unat (g_weightedCount g)
                                                      + unat (sp_weightedCount s)),
                                        a_primary = sp_id s, a_context = g_id g\<rparr>))
                            (speciesMap g)) gm)"

text \<open>
  The two report loops of lines 193 to 210 in closed form: what they append to the sink
  for a genus map. The score is the \<^verbatim>\<open>uint32_t\<close> sum of line 203.
\<close>

definition reportsOf :: "GenusCount list \<Rightarrow> (int \<times> AlnRes) list" where
  "reportsOf gm =
     concat (map (\<lambda>g. map (\<lambda>s. (0, \<lparr>a_score = ucast (g_weightedCount g + sp_weightedCount s),
                                        a_primary = sp_id s, a_context = g_id g\<rparr>))
                            (speciesMap g)) gm)"

section \<open>A small instance\<close>

text \<open>
  Concrete collaborators for the worked examples: a search primitive that reports the
  strand complete and leaves its partial hits as they are, a walk that sends element
  \<open>off\<close> of the range starting at \<open>top\<close> to reference \<open>top + off\<close>, reversal as the
  shuffle, insertion sort, reference names that carry the reference number as packed id,
  and reads of length 100.
\<close>

fun insertBy :: "('a \<Rightarrow> 'a \<Rightarrow> bool) \<Rightarrow> 'a \<Rightarrow> 'a list \<Rightarrow> 'a list" where
  "insertBy cmp x [] = [x]"
| "insertBy cmp x (y # ys) = (if cmp x y then x # y # ys else y # insertBy cmp x ys)"

definition ex_ext :: "unit externals" where
  "ex_ext = \<lparr>partialSearch = (\<lambda>rdi fw h r. (h\<lparr>r_done := True\<rparr>, r)),
             advanceElement = (\<lambda>t l off. t + off),
             shufflePortion = (\<lambda>cs r. (rev cs, r)),
             sortWith = (\<lambda>cmp xs. foldr (insertBy cmp) xs []),
             extractID = (\<lambda>r. r),
             readLength = (\<lambda>rdi. 100)\<rparr>"

text \<open>
  Reference names for the end-to-end scenario of the specification: references 20 and 21
  belong to species 3 of genus 7, reference 22 to species 4 of genus 7.
\<close>

definition ex_ext_taxa :: "unit externals" where
  "ex_ext_taxa = ex_ext\<lparr>extractID := (\<lambda>r. if r = 22 then 17179869191 else 12884901895)\<rparr>"

text \<open>A primitive that finds one more partial hit of length 12 ending at offset 30.\<close>

definition ex_ext_search :: "unit externals" where
  "ex_ext_search = ex_ext\<lparr>partialSearch := (\<lambda>rdi fw h r.
      (h\<lparr>r_cur := 30, partialHits := partialHits h @
           [\<lparr>h_top = 0, h_bot = 1, h_len = 12, h_bwoff = 18, h_coords = []\<rparr>]\<rparr>, r))\<rparr>"

definition ex_partialHit :: "index_t \<Rightarrow> index_t \<Rightarrow> index_t \<Rightarrow> BWTHit" where
  "ex_partialHit t b l = \<lparr>h_top = t, h_bot = b, h_len = l, h_bwoff = 0, h_coords = []\<rparr>"

definition ex_strand :: "bool \<Rightarrow> BWTHit list \<Rightarrow> ReadBWTHit" where
  "ex_strand fw xs = \<lparr>r_fw = fw, r_len = 100, r_cur = 0, r_done = False, partialHits = xs\<rparr>"

text \<open>A classifier whose forward strand of the first mate holds the partial hits \<open>xs\<close>.\<close>

definition ex_state :: "BWTHit list \<Rightarrow> unit go_state" where
  "ex_state xs =
     \<lparr>genusMap = [], genomeHits = [],
      hits = ((ex_strand True xs, ex_strand False []), (ex_strand True [], ex_strand False [])),
      rnd = (), sink = [], bestScore = 0, secondBestScore = 0, totalHitLength = (0, 0),
      hit_obj = ex_strand True xs, usedPortion = 0, genomeHitCnt = 0\<rparr>"

definition ex_search_state :: "unit search_state" where
  "ex_search_state =
     \<lparr>s_hits = ((ex_strand True [], ex_strand False []), (ex_strand True [], ex_strand False [])),
      s_rnd = (), s_done = (False, False), s_cur = (0, 0)\<rparr>"

text \<open>
  A read of length 70000, for partial hits longer than a short read: the forward strand
  of the first mate holds the partial hits \<open>xs\<close>.
\<close>

definition ex_ext_long :: "unit externals" where
  "ex_ext_long = ex_ext\<lparr>readLength := (\<lambda>rdi. 70000)\<rparr>"

definition ex_long_strand :: "bool \<Rightarrow> BWTHit list \<Rightarrow> ReadBWTHit" where
  "ex_long_strand fw xs =
     \<lparr>r_fw = fw, r_len = 70000, r_cur = 0, r_done = False, partialHits = xs\<rparr>"

definition ex_long_state :: "BWTHit list \<Rightarrow> unit go_state" where
  "ex_long_state xs =
     \<lparr>genusMap = [], genomeHits = [],
      hits = ((ex_long_strand True xs, ex_long_strand False []),
              (ex_long_strand True [], ex_long_strand False [])),
      rnd = (), sink = [], bestScore = 0, secondBestScore = 0, totalHitLength = (0, 0),
      hit_obj = ex_long_strand True xs, usedPortion = 0, genomeHitCnt = 0\<rparr>"

text \<open>A coordinate on the reference whose packed id has species 3 and genus 7.\<close>

definition ex_coord :: Coord where
  "ex_coord = \<lparr>c_ref = 12884901895, c_off = 0, c_fw = False\<rparr>"

declare searchLoop.simps [code]

declare genusLoop.simps [simp del] speciesLoop.simps [simp del] hitLengthLoop.simps [simp del]
  walkLoop.simps [simp del] coordLoop.simps [simp del] hitLoop.simps [simp del]
  mateLoop.simps [simp del] speciesReportLoop.simps [simp del] genusReportLoop.simps [simp del]

section \<open>The two credit operations\<close>

text \<open>The scanning loops stop at the first entry with the wanted id.\<close>

lemma genusLoop_index:
  "genusLoop gm g hi w i =
     (let idx = i + genusIndex (drop i gm) g
      in if idx < length gm then
           (if ucast (g_timeStamp (gm ! idx)) \<noteq> hi then
              gm[idx := (gm ! idx)\<lparr>g_count := g_count (gm ! idx) + 1,
                   g_weightedCount := g_weightedCount (gm ! idx) + w,
                   g_timeStamp := ucast hi\<rparr>]
            else gm, idx)
         else (gm, idx))"
proof (induction gm g hi w i rule: genusLoop.induct)
  case (1 gm g hi w i)
  show ?case
  proof (cases "i < length gm")
    case False
    then show ?thesis by (subst genusLoop.simps) (simp add: genusIndex_def)
  next
    case True
    then have d: "drop i gm = gm ! i # drop (Suc i) gm" by (simp add: Cons_nth_drop_Suc)
    show ?thesis
    proof (cases "g_id (gm ! i) = g")
      case True
      with \<open>i < length gm\<close> show ?thesis
        by (subst genusLoop.simps) (simp add: genusIndex_def d)
    next
      case False
      with \<open>i < length gm\<close> "1.IH" show ?thesis
        by (subst genusLoop.simps) (simp add: genusIndex_def d Let_def)
    qed
  qed
qed

lemma speciesLoop_index:
  "speciesLoop gc s hi w i =
     (let idx = i + speciesIndex (drop i (speciesMap gc)) s
      in if idx < length (speciesMap gc) then
           (if ucast (sp_timeStamp (speciesMap gc ! idx)) \<noteq> hi then
              (gc\<lparr>speciesMap := (speciesMap gc)[idx := (speciesMap gc ! idx)
                   \<lparr>sp_count := sp_count (speciesMap gc ! idx) + 1,
                    sp_weightedCount := sp_weightedCount (speciesMap gc ! idx) + w,
                    sp_timeStamp := ucast hi\<rparr>]\<rparr>, g_weightedCount gc, True)
            else (gc, 0, True))
         else (gc, 0, False))"
proof (induction gc s hi w i rule: speciesLoop.induct)
  case (1 gc s hi w i)
  show ?case
  proof (cases "i < length (speciesMap gc)")
    case False
    then show ?thesis by (subst speciesLoop.simps) (simp add: speciesIndex_def)
  next
    case True
    then have d: "drop i (speciesMap gc) = speciesMap gc ! i # drop (Suc i) (speciesMap gc)"
      by (simp add: Cons_nth_drop_Suc)
    show ?thesis
    proof (cases "sp_id (speciesMap gc ! i) = s")
      case True
      with \<open>i < length (speciesMap gc)\<close> show ?thesis
        by (subst speciesLoop.simps) (simp add: speciesIndex_def d)
    next
      case False
      with \<open>i < length (speciesMap gc)\<close> "1.IH" show ?thesis
        by (subst speciesLoop.simps) (simp add: speciesIndex_def d Let_def)
    qed
  qed
qed

lemma genusIndex_le: "genusIndex gm g \<le> length gm"
  by (simp add: genusIndex_def length_takeWhile_le)

lemma genusEntry_index:
  "genusEntry gm g = (if genusIndex gm g < length gm then Some (gm ! genusIndex gm g) else None)"
  by (induction gm) (auto simp: genusEntry_def genusIndex_def)

lemma speciesEntry_index:
  "find (\<lambda>e. sp_id e = s) sm = (if speciesIndex sm s < length sm then Some (sm ! speciesIndex sm s) else None)"
  by (induction sm) (auto simp: speciesIndex_def)

lemma genusIndex_id: "genusIndex gm g < length gm \<Longrightarrow> g_id (gm ! genusIndex gm g) = g"
  unfolding genusIndex_def by (induction gm) auto

lemma speciesIndex_id: "speciesIndex sm s < length sm \<Longrightarrow> sp_id (sm ! speciesIndex sm s) = s"
  unfolding speciesIndex_def by (induction sm) auto

lemma genusEntry_update:
  "genusIndex gm g < length gm \<Longrightarrow> g_id e = g \<Longrightarrow>
   genusEntry (gm[genusIndex gm g := e]) g' = (if g' = g then Some e else genusEntry gm g')"
  unfolding genusIndex_def genusEntry_def
  by (induction gm) auto

lemma genusIndex_update:
  "genusIndex gm g < length gm \<Longrightarrow> g_id e = g \<Longrightarrow>
   genusIndex (gm[genusIndex gm g := e]) g' = genusIndex gm g'"
  unfolding genusIndex_def
  by (induction gm) auto

lemma genusEntry_append:
  "genusEntry (gm @ [e]) g' =
     (case genusEntry gm g' of Some x \<Rightarrow> Some x | None \<Rightarrow> if g_id e = g' then Some e else None)"
  unfolding genusEntry_def by (induction gm) auto

lemma genusIndex_append:
  "\<not> genusIndex gm g < length gm \<Longrightarrow> g_id e = g \<Longrightarrow> genusIndex (gm @ [e]) g = length gm"
  unfolding genusIndex_def by (induction gm) auto

lemma speciesFind_update:
  "speciesIndex sm s < length sm \<Longrightarrow> sp_id e = s \<Longrightarrow>
   find (\<lambda>x. sp_id x = s') (sm[speciesIndex sm s := e]) =
     (if s' = s then Some e else find (\<lambda>x. sp_id x = s') sm)"
  unfolding speciesIndex_def
  by (induction sm) auto

lemma speciesFind_append:
  "find (\<lambda>x. sp_id x = s') (sm @ [e]) =
     (case find (\<lambda>x. sp_id x = s') sm of Some x \<Rightarrow> Some x
      | None \<Rightarrow> if sp_id e = s' then Some e else None)"
  by (induction sm) auto

lemma addHitToGenusMap_eq:
  "addHitToGenusMap gm g hi w =
     (let idx = genusIndex gm g
      in if idx < length gm then
           (if ucast (g_timeStamp (gm ! idx)) \<noteq> hi then
              gm[idx := (gm ! idx)\<lparr>g_count := g_count (gm ! idx) + 1,
                   g_weightedCount := g_weightedCount (gm ! idx) + w,
                   g_timeStamp := ucast hi\<rparr>]
            else gm, idx)
         else (gm @ [\<lparr>g_id = g, g_count = 1, g_weightedCount = w,
                        g_timeStamp = ucast hi, speciesMap = []\<rparr>], idx))"
  using genusIndex_le[of gm g]
  by (auto simp: addHitToGenusMap_def genusLoop_index Let_def)

lemma addHitToSpeciesMap_eq:
  "addHitToSpeciesMap gc s hi w =
     (let sm = speciesMap gc; idx = speciesIndex sm s
      in if idx < length sm then
           (if ucast (sp_timeStamp (sm ! idx)) \<noteq> hi then
              (gc\<lparr>speciesMap := sm[idx := (sm ! idx)
                   \<lparr>sp_count := sp_count (sm ! idx) + 1,
                    sp_weightedCount := sp_weightedCount (sm ! idx) + w,
                    sp_timeStamp := ucast hi\<rparr>]\<rparr>, g_weightedCount gc)
            else (gc, 0))
         else (gc\<lparr>speciesMap := sm @ [\<lparr>sp_id = s, sp_count = 1, sp_weightedCount = w,
                                         sp_timeStamp = ucast hi\<rparr>]\<rparr>, w))"
  by (auto simp: addHitToSpeciesMap_def speciesLoop_index Let_def)

lemma addHitToGenusMap_index:
  "snd (addHitToGenusMap gm g hi w) = genusIndex (fst (addHitToGenusMap gm g hi w)) g \<and>
   snd (addHitToGenusMap gm g hi w) < length (fst (addHitToGenusMap gm g hi w))"
proof (cases "genusIndex gm g < length gm")
  case True
  then show ?thesis
    by (simp add: addHitToGenusMap_eq Let_def genusIndex_update genusIndex_id)
next
  case False
  then have "genusIndex gm g = length gm"
    using genusIndex_le[of gm g] by simp
  with False show ?thesis
    by (simp add: addHitToGenusMap_eq Let_def genusIndex_append)
qed

lemma addHitToGenusMap_entry:
  "genusEntry (fst (addHitToGenusMap gm g hi w)) g' =
     (if g' = g then
        Some (case genusEntry gm g of
                None \<Rightarrow> \<lparr>g_id = g, g_count = 1, g_weightedCount = w,
                          g_timeStamp = ucast hi, speciesMap = []\<rparr>
              | Some e \<Rightarrow>
                  if ucast (g_timeStamp e) \<noteq> hi then
                    e\<lparr>g_count := g_count e + 1, g_weightedCount := g_weightedCount e + w,
                      g_timeStamp := ucast hi\<rparr>
                  else e)
      else genusEntry gm g')"
proof (cases "genusIndex gm g < length gm")
  case True
  then have e: "genusEntry gm g = Some (gm ! genusIndex gm g)"
    by (simp add: genusEntry_index)
  show ?thesis
  proof (cases "ucast (g_timeStamp (gm ! genusIndex gm g)) \<noteq> hi")
    case stale: True
    from True stale show ?thesis
      by (simp add: addHitToGenusMap_eq Let_def e genusEntry_update genusIndex_id)
  next
    case False
    with True show ?thesis
      by (simp add: addHitToGenusMap_eq Let_def e)
  qed
next
  case False
  then have e: "genusEntry gm g = None"
    by (simp add: genusEntry_index)
  from False show ?thesis
    by (auto simp add: addHitToGenusMap_eq Let_def e genusEntry_append split: option.splits)
qed

lemma addHitToGenusMap_view:
  "genusView (fst (addHitToGenusMap gm g hi w)) g' =
     (if g' = g then Some (creditView hi w (genusView gm g)) else genusView gm g')"
  by (simp add: genusView_def addHitToGenusMap_entry creditView_def split: option.splits)

lemma addHitToGenusMap_species:
  "speciesView (fst (addHitToGenusMap gm g hi w)) g' s = speciesView gm g' s"
  by (simp add: speciesView_def addHitToGenusMap_entry speciesEntry_def split: option.splits)

lemma addHitToSpeciesMap_fields:
  "g_id (fst (addHitToSpeciesMap gc s hi w)) = g_id gc"
  "g_count (fst (addHitToSpeciesMap gc s hi w)) = g_count gc"
  "g_weightedCount (fst (addHitToSpeciesMap gc s hi w)) = g_weightedCount gc"
  "g_timeStamp (fst (addHitToSpeciesMap gc s hi w)) = g_timeStamp gc"
  by (auto simp: addHitToSpeciesMap_eq Let_def)

lemma addHitToSpeciesMap_entry:
  "speciesEntry (fst (addHitToSpeciesMap gc s hi w)) s' =
     (if s' = s then
        Some (case speciesEntry gc s of
                None \<Rightarrow> \<lparr>sp_id = s, sp_count = 1, sp_weightedCount = w, sp_timeStamp = ucast hi\<rparr>
              | Some e \<Rightarrow>
                  if ucast (sp_timeStamp e) \<noteq> hi then
                    e\<lparr>sp_count := sp_count e + 1, sp_weightedCount := sp_weightedCount e + w,
                      sp_timeStamp := ucast hi\<rparr>
                  else e)
      else speciesEntry gc s')"
proof (cases "speciesIndex (speciesMap gc) s < length (speciesMap gc)")
  case True
  then have e: "speciesEntry gc s = Some (speciesMap gc ! speciesIndex (speciesMap gc) s)"
    by (simp add: speciesEntry_def speciesEntry_index)
  show ?thesis
  proof (cases "ucast (sp_timeStamp (speciesMap gc ! speciesIndex (speciesMap gc) s)) \<noteq> hi")
    case stale: True
    from True stale show ?thesis
      by (simp add: addHitToSpeciesMap_eq Let_def e)
         (simp add: speciesEntry_def speciesFind_update speciesIndex_id)
  next
    case False
    with True show ?thesis
      by (simp add: addHitToSpeciesMap_eq Let_def e)
  qed
next
  case False
  then have e: "speciesEntry gc s = None"
    by (simp add: speciesEntry_def speciesEntry_index)
  from False show ?thesis
    using e by (auto simp add: addHitToSpeciesMap_eq Let_def speciesEntry_def speciesFind_append
        split: option.splits)
qed

lemma addHitToSpeciesMap_view:
  "map_option (\<lambda>x. (sp_count x, sp_weightedCount x, sp_timeStamp x))
     (speciesEntry (fst (addHitToSpeciesMap gc s hi w)) s') =
   (if s' = s then
      Some (creditView hi w (map_option (\<lambda>x. (sp_count x, sp_weightedCount x, sp_timeStamp x))
                               (speciesEntry gc s)))
    else map_option (\<lambda>x. (sp_count x, sp_weightedCount x, sp_timeStamp x)) (speciesEntry gc s'))"
  by (simp add: addHitToSpeciesMap_entry creditView_def split: option.splits)

lemma creditCoord_genusMap:
  "genusMap (creditCoord ext L hi st c) =
     (case addHitToGenusMap (genusMap st) (genusIDOf ext c) (of_nat hi) (addWeightOf L) of
        (gm1, idx) \<Rightarrow>
          gm1[idx := fst (addHitToSpeciesMap (gm1 ! idx) (speciesIDOf ext c) (of_nat hi)
                            (addWeightOf L))])"
  by (simp add: creditCoord_def Let_def split: prod.splits)

lemma creditCoord_genusEntry:
  "genusEntry (genusMap (creditCoord ext L hi st c)) g =
     (if g = genusIDOf ext c then
        (case genusEntry (fst (addHitToGenusMap (genusMap st) (genusIDOf ext c) (of_nat hi)
                                 (addWeightOf L))) g of
           None \<Rightarrow> None
         | Some e \<Rightarrow> Some (fst (addHitToSpeciesMap e (speciesIDOf ext c) (of_nat hi)
                                   (addWeightOf L))))
      else genusEntry (genusMap st) g)"
proof -
  obtain gm1 idx where a: "addHitToGenusMap (genusMap st) (genusIDOf ext c) (of_nat hi)
      (addWeightOf L) = (gm1, idx)"
    by (cases "addHitToGenusMap (genusMap st) (genusIDOf ext c) (of_nat hi) (addWeightOf L)")
  have i: "idx = genusIndex gm1 (genusIDOf ext c)" "idx < length gm1"
    using addHitToGenusMap_index[of "genusMap st" "genusIDOf ext c" "of_nat hi" "addWeightOf L"]
    by (simp_all add: a)
  have e: "genusEntry gm1 (genusIDOf ext c) = Some (gm1 ! idx)"
    using i by (simp add: genusEntry_index)
  have o: "genusEntry gm1 g = genusEntry (genusMap st) g" if "g \<noteq> genusIDOf ext c"
    using addHitToGenusMap_entry[of "genusMap st" "genusIDOf ext c" "of_nat hi" "addWeightOf L" g]
      that by (simp add: a)
  have "genusEntry (gm1[idx := fst (addHitToSpeciesMap (gm1 ! idx) (speciesIDOf ext c) (of_nat hi)
            (addWeightOf L))]) g =
        (if g = genusIDOf ext c then
           Some (fst (addHitToSpeciesMap (gm1 ! idx) (speciesIDOf ext c) (of_nat hi) (addWeightOf L)))
         else genusEntry gm1 g)"
    unfolding i(1) using i
    by (intro genusEntry_update) (simp_all add: addHitToSpeciesMap_fields genusIndex_id)
  then show ?thesis
    using e o by (simp add: creditCoord_genusMap a)
qed

lemma creditCoord_genusView:
  "genusView (genusMap (creditCoord ext L hi st c)) g =
     (if g = genusIDOf ext c then
        Some (creditView (of_nat hi) (addWeightOf L) (genusView (genusMap st) g))
      else genusView (genusMap st) g)"
proof (cases "g = genusIDOf ext c")
  case False
  then show ?thesis by (simp add: genusView_def creditCoord_genusEntry)
next
  case True
  have "genusView (fst (addHitToGenusMap (genusMap st) (genusIDOf ext c) (of_nat hi)
          (addWeightOf L))) g = Some (creditView (of_nat hi) (addWeightOf L) (genusView (genusMap st) g))"
    using True by (simp add: addHitToGenusMap_view)
  then show ?thesis
    using True
    by (auto simp add: genusView_def creditCoord_genusEntry addHitToSpeciesMap_fields
        split: option.splits)
qed

lemma creditCoord_speciesView:
  "speciesView (genusMap (creditCoord ext L hi st c)) g s =
     (if g = genusIDOf ext c \<and> s = speciesIDOf ext c then
        Some (creditView (of_nat hi) (addWeightOf L) (speciesView (genusMap st) g s))
      else speciesView (genusMap st) g s)"
proof (cases "g = genusIDOf ext c")
  case False
  then show ?thesis by (simp add: speciesView_def creditCoord_genusEntry)
next
  case True
  let ?gm1 = "fst (addHitToGenusMap (genusMap st) (genusIDOf ext c) (of_nat hi) (addWeightOf L))"
  obtain e where e: "genusEntry ?gm1 g = Some e"
    using True by (simp add: addHitToGenusMap_entry)
  have sv: "speciesView ?gm1 g s' = speciesView (genusMap st) g s'" for s'
    by (simp add: addHitToGenusMap_species)
  have "speciesView (genusMap (creditCoord ext L hi st c)) g s =
        map_option (\<lambda>x. (sp_count x, sp_weightedCount x, sp_timeStamp x))
          (speciesEntry (fst (addHitToSpeciesMap e (speciesIDOf ext c) (of_nat hi) (addWeightOf L))) s)"
    using True e by (simp add: speciesView_def creditCoord_genusEntry)
  also have "\<dots> = (if s = speciesIDOf ext c then
        Some (creditView (of_nat hi) (addWeightOf L) (speciesView ?gm1 g s))
      else speciesView ?gm1 g s)"
    using e by (simp add: addHitToSpeciesMap_view speciesView_def)
  finally show ?thesis unfolding sv using True by simp
qed

lemma ucast_down_up:
  fixes hi :: size_t
  assumes "unat hi < 2 ^ 32"
  shows "(ucast (ucast hi :: uint32_t) :: size_t) = hi"
proof -
  have "unat (ucast (ucast hi :: uint32_t) :: size_t) = unat hi"
    using assms by (simp add: unsigned_ucast_eq unsigned_take_bit_eq take_bit_nat_eq_self)
  then show ?thesis by (simp add: word_unat_eq_iff)
qed

lemma creditView_idem:
  assumes "unat hi < 2 ^ 32"
  shows "creditView hi w (Some (creditView hi w v)) = creditView hi w v"
  using ucast_down_up[OF assms]
  by (auto simp: creditView_def split: option.splits prod.splits)

lemma unat_of_nat_hi: "hi < 2 ^ 32 \<Longrightarrow> unat (of_nat hi :: size_t) < 2 ^ 32"
  by (simp add: unat_of_nat)

lemma coordLoop_genusView:
  "hi < 2 ^ 32 \<Longrightarrow>
     genusView (genusMap (coordLoop ext maxG L hi coords k st)) g = genusView (genusMap st) g \<or>
     genusView (genusMap (coordLoop ext maxG L hi coords k st)) g =
       Some (creditView (of_nat hi) (addWeightOf L) (genusView (genusMap st) g))"
proof (induction ext maxG L hi coords k st rule: coordLoop.induct)
  case (1 ext maxG L hi coords k st)
  show ?case
  proof (cases "k < length coords \<and> genomeHitCnt st < maxG")
    case False
    then have "coordLoop ext maxG L hi coords k st = st"
      by (subst coordLoop.simps) (rule if_not_P)
    then show ?thesis by simp
  next
    case True
    let ?st1 = "(creditCoord ext L hi st (coords ! k))\<lparr>genomeHitCnt := genomeHitCnt st + 1\<rparr>"
    have eq: "coordLoop ext maxG L hi coords k st = coordLoop ext maxG L hi coords (Suc k) ?st1"
      using True by (subst coordLoop.simps) simp
    have step: "genusView (genusMap ?st1) g = genusView (genusMap st) g \<or>
        genusView (genusMap ?st1) g =
          Some (creditView (of_nat hi) (addWeightOf L) (genusView (genusMap st) g))"
      by (simp add: creditCoord_genusView)
    have idem: "creditView (of_nat hi) (addWeightOf L)
        (Some (creditView (of_nat hi) (addWeightOf L) (genusView (genusMap st) g))) =
        creditView (of_nat hi) (addWeightOf L) (genusView (genusMap st) g)"
      by (rule creditView_idem[OF unat_of_nat_hi[OF "1.prems"]])
    from "1.IH"[OF True "1.prems"] step idem show ?thesis
      unfolding eq by auto
  qed
qed

lemma coordLoop_speciesView:
  "hi < 2 ^ 32 \<Longrightarrow>
     speciesView (genusMap (coordLoop ext maxG L hi coords k st)) g s =
       speciesView (genusMap st) g s \<or>
     speciesView (genusMap (coordLoop ext maxG L hi coords k st)) g s =
       Some (creditView (of_nat hi) (addWeightOf L) (speciesView (genusMap st) g s))"
proof (induction ext maxG L hi coords k st rule: coordLoop.induct)
  case (1 ext maxG L hi coords k st)
  show ?case
  proof (cases "k < length coords \<and> genomeHitCnt st < maxG")
    case False
    then have "coordLoop ext maxG L hi coords k st = st"
      by (subst coordLoop.simps) (rule if_not_P)
    then show ?thesis by simp
  next
    case True
    let ?st1 = "(creditCoord ext L hi st (coords ! k))\<lparr>genomeHitCnt := genomeHitCnt st + 1\<rparr>"
    have eq: "coordLoop ext maxG L hi coords k st = coordLoop ext maxG L hi coords (Suc k) ?st1"
      using True by (subst coordLoop.simps) simp
    have step: "speciesView (genusMap ?st1) g s = speciesView (genusMap st) g s \<or>
        speciesView (genusMap ?st1) g s =
          Some (creditView (of_nat hi) (addWeightOf L) (speciesView (genusMap st) g s))"
      by (simp add: creditCoord_speciesView)
    have idem: "creditView (of_nat hi) (addWeightOf L)
        (Some (creditView (of_nat hi) (addWeightOf L) (speciesView (genusMap st) g s))) =
        creditView (of_nat hi) (addWeightOf L) (speciesView (genusMap st) g s)"
      by (rule creditView_idem[OF unat_of_nat_hi[OF "1.prems"]])
    from "1.IH"[OF True "1.prems"] step idem show ?thesis
      unfolding eq by auto
  qed
qed

lemma creditView_stats:
  "(viewCount (Some (creditView hi w v)) = viewCount v \<and>
    viewWeight (Some (creditView hi w v)) = viewWeight v) \<or>
   (viewCount (Some (creditView hi w v)) = viewCount v + 1 \<and>
    viewWeight (Some (creditView hi w v)) = viewWeight v + w)"
  by (auto simp: creditView_def viewCount_def viewWeight_def split: option.splits)

section \<open>Reporting\<close>

lemma speciesReportLoop_eq:
  "speciesReportLoop gc mi snk =
     snk @ map (\<lambda>s. (0, \<lparr>a_score = ucast (g_weightedCount gc + sp_weightedCount s),
                           a_primary = sp_id s, a_context = g_id gc\<rparr>))
               (drop mi (speciesMap gc))"
proof (induction gc mi snk rule: speciesReportLoop.induct)
  case (1 gc mi snk)
  show ?case
  proof (cases "mi < length (speciesMap gc)")
    case True
    then have d: "drop mi (speciesMap gc) = speciesMap gc ! mi # drop (Suc mi) (speciesMap gc)"
      by (simp add: Cons_nth_drop_Suc)
    from True "1.IH" show ?thesis
      by (subst speciesReportLoop.simps) (simp add: d)
  next
    case False
    then show ?thesis by (subst speciesReportLoop.simps) simp
  qed
qed

lemma genusReportLoop_eq:
  "genusReportLoop gm gi snk = snk @ reportsOf (drop gi gm)"
proof (induction gm gi snk rule: genusReportLoop.induct)
  case (1 gm gi snk)
  show ?case
  proof (cases "gi < length gm")
    case True
    then have d: "drop gi gm = gm ! gi # drop (Suc gi) gm"
      by (simp add: Cons_nth_drop_Suc)
    from True "1.IH" show ?thesis
      by (subst genusReportLoop.simps) (simp add: d speciesReportLoop_eq reportsOf_def)
  next
    case False
    then show ?thesis by (subst genusReportLoop.simps) (simp add: reportsOf_def)
  qed
qed

text \<open>Nothing is reported while the mates are processed.\<close>

lemma creditCoord_sink: "sink (creditCoord ext L hi st c) = sink st"
  by (simp add: creditCoord_def Let_def split: prod.splits)

lemma coordLoop_sink: "sink (coordLoop ext maxG L hi coords k st) = sink st"
proof (induction ext maxG L hi coords k st rule: coordLoop.induct)
  case (1 ext maxG L hi coords k st)
  show ?case
  proof (cases "k < length coords \<and> genomeHitCnt st < maxG")
    case True
    with "1.IH" show ?thesis
      by (subst coordLoop.simps) (simp add: creditCoord_sink)
  next
    case False
    then have "coordLoop ext maxG L hi coords k st = st"
      by (subst coordLoop.simps) (rule if_not_P)
    then show ?thesis by simp
  qed
qed

lemma processHit_sink: "sink (processHit ext maxG L hi coords st) = sink st"
  by (simp add: processHit_def Let_def coordLoop_sink split: prod.splits)

lemma hitLoop_sink: "sink (hitLoop ext minHitLen maxG lr offsetSz hi st) = sink st"
proof (induction ext minHitLen maxG lr offsetSz hi st rule: hitLoop.induct)
  case (1 ext minHitLen maxG lr offsetSz hi st)
  show ?case
    by (subst hitLoop.simps)
       (auto simp add: Let_def processHit_sink "1.IH" split: prod.splits)
qed

lemma mateBody_sink:
  "mateBody ext minHitLen maxG paired rdi st = Some (Inr st') \<Longrightarrow> sink st' = sink st"
  by (auto simp add: mateBody_def Let_def hitLoop_sink split: option.splits sum.splits prod.splits)

lemma mateLoop_sink:
  "mateLoop ext minHitLen maxG paired rdi st = Some (Inr st') \<Longrightarrow> sink st' = sink st"
proof (induction ext minHitLen maxG paired rdi st rule: mateLoop.induct)
  case (1 ext minHitLen maxG paired rdi st)
  show ?case
  proof (cases "rdi < (if paired then 2 else 1)")
    case False
    with "1.prems" show ?thesis
      by (subst (asm) mateLoop.simps) simp
  next
    case True
    from "1.prems" True obtain st1 where
      b: "mateBody ext minHitLen maxG paired rdi st = Some (Inr st1)" and
      l: "mateLoop ext minHitLen maxG paired (Suc rdi) st1 = Some (Inr st')"
      by (subst (asm) mateLoop.simps) (auto split: option.splits sum.splits)
    from "1.IH"[OF True b refl l] mateBody_sink[OF b] show ?thesis by simp
  qed
qed

lemma go_sink:
  assumes "go ext minHitLen khits paired st = Some (Inr (st', rc))"
  shows "sink st' = sink st @ reportsOf (genusMap st')" and "rc = 0"
proof -
  from assms obtain st1 where
    l: "mateLoop ext minHitLen khits paired 0
          (st\<lparr>genusMap := [], bestScore := 0, secondBestScore := 0\<rparr>) = Some (Inr st1)" and
    r: "st' = st1\<lparr>sink := genusReportLoop (genusMap st1) 0 (sink st1)\<rparr>" and
    z: "rc = 0"
    by (auto simp add: go_def split: option.splits sum.splits)
  from mateLoop_sink[OF l] have "sink st1 = sink st" by simp
  with r show "sink st' = sink st @ reportsOf (genusMap st')"
    by (simp add: genusReportLoop_eq)
  from z show "rc = 0" .
qed

text \<open>
  As long as no sum of a genus count and a species count under it reaches \<open>2^32\<close>, what
  is reported is what the specification asks for.
\<close>

lemma ucast_add_exact:
  fixes a b :: uint32_t
  assumes "unat a + unat b < 2 ^ 32"
  shows "(ucast (a + b) :: uint64_t) = of_nat (unat a + unat b)"
proof -
  have "unat (a + b) = unat a + unat b"
    using assms by (simp add: unat_add_lem[THEN iffD1])
  then have "(of_nat (unat (a + b)) :: uint64_t) = of_nat (unat a + unat b)"
    by simp
  then show ?thesis by (simp only: of_nat_unat)
qed

lemma reportsOf_exact:
  assumes "\<forall>g \<in> set gm. \<forall>s \<in> set (speciesMap g).
             unat (g_weightedCount g) + unat (sp_weightedCount s) < 2 ^ 32"
  shows "reportsOf gm = spec_results gm"
  using assms unfolding reportsOf_def spec_results_def
  by (intro arg_cong[where f = concat] map_cong refl) (simp add: ucast_add_exact)

lemma go_sink_exact:
  assumes "go ext minHitLen khits paired st = Some (Inr (st', rc))"
    and "\<forall>g \<in> set (genusMap st'). \<forall>s \<in> set (speciesMap g).
           unat (g_weightedCount g) + unat (sp_weightedCount s) < 2 ^ 32"
  shows "sink st' = sink st @ spec_results (genusMap st')"
  using go_sink(1)[OF assms(1)] reportsOf_exact[OF assms(2)] by simp

section \<open>The coordinate budget\<close>

lemma walkLoop_length:
  "length (walkLoop ext t l fw nelt off coords) = length coords + (unat nelt - off)"
proof (induction ext t l fw nelt off coords rule: walkLoop.induct)
  case (1 ext t l fw nelt off coords)
  show ?case
  proof (cases "off < unat nelt")
    case True
    with "1.IH" show ?thesis by (subst walkLoop.simps) simp
  next
    case False
    then show ?thesis by (subst walkLoop.simps) simp
  qed
qed

lemma getCoords_length:
  "length (snd (getCoords ext h hi khits gHits)) =
     unat (min (h_bot (partialHits h ! hi) - h_top (partialHits h ! hi))
               (khits - of_nat (length gHits)))"
  by (simp add: getCoords_def getGenomeIdx_def Let_def walkLoop_length)

lemma creditCoord_genomeHitCnt: "genomeHitCnt (creditCoord ext L hi st c) = genomeHitCnt st"
  by (simp add: creditCoord_def Let_def split: prod.splits)

lemma creditCoord_genomeHits: "genomeHits (creditCoord ext L hi st c) = genomeHits st"
  by (simp add: creditCoord_def Let_def split: prod.splits)

lemma coordLoop_genomeHitCnt:
  "genomeHitCnt st \<le> maxG \<Longrightarrow> genomeHitCnt (coordLoop ext maxG L hi coords k st) \<le> maxG"
proof (induction ext maxG L hi coords k st rule: coordLoop.induct)
  case (1 ext maxG L hi coords k st)
  show ?case
  proof (cases "k < length coords \<and> genomeHitCnt st < maxG")
    case True
    then have "genomeHitCnt st + 1 \<le> maxG" by (simp add: inc_le)
    with True "1.IH" show ?thesis
      by (subst coordLoop.simps) simp
  next
    case False
    then have "coordLoop ext maxG L hi coords k st = st"
      by (subst coordLoop.simps) (rule if_not_P)
    with "1.prems" show ?thesis by simp
  qed
qed

lemma coordLoop_genomeHits: "genomeHits (coordLoop ext maxG L hi coords k st) = genomeHits st"
proof (induction ext maxG L hi coords k st rule: coordLoop.induct)
  case (1 ext maxG L hi coords k st)
  show ?case
  proof (cases "k < length coords \<and> genomeHitCnt st < maxG")
    case True
    with "1.IH" show ?thesis
      by (subst coordLoop.simps) (simp add: creditCoord_genomeHits)
  next
    case False
    then have "coordLoop ext maxG L hi coords k st = st"
      by (subst coordLoop.simps) (rule if_not_P)
    then show ?thesis by simp
  qed
qed

lemma processHit_genomeHitCnt:
  "genomeHitCnt st \<le> maxG \<Longrightarrow> genomeHitCnt (processHit ext maxG L hi coords st) \<le> maxG"
  by (simp add: processHit_def Let_def coordLoop_genomeHitCnt split: prod.splits)

lemma processHit_genomeHits: "genomeHits (processHit ext maxG L hi coords st) = genomeHits st"
  by (simp add: processHit_def Let_def coordLoop_genomeHits split: prod.splits)

text \<open>The four ways through one round of the loop over the partial hits.\<close>

lemma hitLoop_done:
  "\<not> hi < offsetSz \<Longrightarrow> hitLoop ext minHitLen maxG lr offsetSz hi st = st"
  by (subst hitLoop.simps) simp

lemma hitLoop_skip:
  assumes "hi < offsetSz" and "len (partialHits (hit_obj st) ! hi) < minHitLen"
  shows "hitLoop ext minHitLen maxG lr offsetSz hi st =
         hitLoop ext minHitLen maxG lr offsetSz (Suc hi) st"
  using assms by (subst hitLoop.simps) (simp add: Let_def)

lemma hitLoop_empty:
  assumes "hi < offsetSz" and "\<not> len (partialHits (hit_obj st) ! hi) < minHitLen"
    and "getCoords ext (hit_obj st) hi maxG (genomeHits st) = (hit', [])"
  shows "hitLoop ext minHitLen maxG lr offsetSz hi st =
         hitLoop ext minHitLen maxG lr offsetSz (Suc hi) (st\<lparr>hit_obj := hit'\<rparr>)"
  using assms by (subst hitLoop.simps) (simp add: Let_def)

lemma hitLoop_process:
  assumes "hi < offsetSz" and "\<not> len (partialHits (hit_obj st) ! hi) < minHitLen"
    and "getCoords ext (hit_obj st) hi maxG (genomeHits st) = (hit', coords)"
    and "coords \<noteq> []"
    and "st' = processHit ext maxG (len (partialHits (hit_obj st) ! hi)) hi coords
                 (st\<lparr>hit_obj := hit'\<rparr>)"
  shows "hitLoop ext minHitLen maxG lr offsetSz hi st =
         (if genomeHitCnt st' \<ge> maxG then st'
          else if lr \<and> earlyStop st' then st'
          else hitLoop ext minHitLen maxG lr offsetSz (Suc hi) st')"
  using assms by (subst hitLoop.simps) (simp add: Let_def)

lemma hitLoop_invariant:
  assumes upd: "\<And>s hit'. P s \<Longrightarrow> P (s\<lparr>hit_obj := hit'\<rparr>)"
    and proc: "\<And>s L h c. P s \<Longrightarrow> P (processHit ext maxG L h c s)"
  shows "P st \<Longrightarrow> P (hitLoop ext minHitLen maxG lr offsetSz hi st)"
proof (induction "offsetSz - hi" arbitrary: hi st)
  case 0
  then show ?case by (simp add: hitLoop_done)
next
  case (Suc n)
  then have lt: "hi < offsetSz" and n: "n = offsetSz - Suc hi" by simp_all
  show ?case
  proof (cases "len (partialHits (hit_obj st) ! hi) < minHitLen")
    case True
    show ?thesis
      unfolding hitLoop_skip[OF lt True] using Suc.hyps(1)[OF n Suc.prems] .
  next
    case False
    obtain hit' coords where g:
      "getCoords ext (hit_obj st) hi maxG (genomeHits st) = (hit', coords)"
      by (cases "getCoords ext (hit_obj st) hi maxG (genomeHits st)")
    show ?thesis
    proof (cases "coords = []")
      case True
      from g True have g': "getCoords ext (hit_obj st) hi maxG (genomeHits st) = (hit', [])"
        by simp
      show ?thesis
        unfolding hitLoop_empty[OF lt False g']
        using Suc.hyps(1)[OF n upd[OF Suc.prems]] .
    next
      case ne: False
      let ?st' = "processHit ext maxG (len (partialHits (hit_obj st) ! hi)) hi coords
                    (st\<lparr>hit_obj := hit'\<rparr>)"
      have p: "P ?st'" by (rule proc[OF upd[OF Suc.prems]])
      show ?thesis
        unfolding hitLoop_process[OF lt False g ne refl]
        using p Suc.hyps(1)[OF n p] by simp
    qed
  qed
qed

lemma hitLoop_genomeHitCnt:
  "genomeHitCnt st \<le> maxG \<Longrightarrow>
   genomeHitCnt (hitLoop ext minHitLen maxG lr offsetSz hi st) \<le> maxG"
  by (rule hitLoop_invariant[where P = "\<lambda>s. genomeHitCnt s \<le> maxG"])
     (simp_all add: processHit_genomeHitCnt)

lemma hitLoop_genomeHits:
  "genomeHits (hitLoop ext minHitLen maxG lr offsetSz hi st) = genomeHits st"
  by (rule hitLoop_invariant[where P = "\<lambda>s. genomeHits s = genomeHits st"])
     (simp_all add: processHit_genomeHits)

lemma mateBody_budget:
  assumes "mateBody ext minHitLen khits paired rdi st = Some (Inr st')"
  shows "genomeHitCnt st' \<le> khits" and "genomeHits st' = []"
  using assms
  by (auto simp add: mateBody_def Let_def hitLoop_genomeHits
      intro!: hitLoop_genomeHitCnt split: option.splits sum.splits prod.splits)

section \<open>Strand selection\<close>

lemma hitLengthLoop_eq:
  "hitLengthLoop m hit i (t, n) =
     (t + sum_list (map len (filter (\<lambda>h. m \<le> len h) (drop i (partialHits hit)))),
      n + of_nat (length (filter (\<lambda>h. m \<le> len h) (drop i (partialHits hit)))))"
proof (induction m hit i "(t, n)" arbitrary: t n rule: hitLengthLoop.induct)
  case (1 m hit i t n)
  show ?case
  proof (cases "i < offsetSize hit")
    case False
    then show ?thesis by (subst hitLengthLoop.simps) (simp add: offsetSize_def)
  next
    case True
    then have d: "drop i (partialHits hit) = partialHits hit ! i # drop (Suc i) (partialHits hit)"
      by (simp add: Cons_nth_drop_Suc offsetSize_def)
    show ?thesis
    proof (cases "len (partialHits hit ! i) < m")
      case short: True
      have eq: "hitLengthLoop m hit i (t, n) = hitLengthLoop m hit (Suc i) (t, n)"
        by (subst hitLengthLoop.simps) (simp only: True short if_True)
      from short "1.hyps"(1)[OF True short] show ?thesis
        unfolding eq by (simp add: d)
    next
      case False
      have eq: "hitLengthLoop m hit i (t, n) =
          hitLengthLoop m hit (Suc i) (t + len (partialHits hit ! i), n + 1)"
        by (subst hitLengthLoop.simps) (simp only: True False if_True if_False)
      from False "1.hyps"(2)[OF True False] show ?thesis
        unfolding eq by (simp add: d ac_simps)
    qed
  qed
qed

lemma strandAverage_idx: "snd (strandAverage m hit 0) = spec_average_idx m hit"
proof -
  let ?q = "filter (\<lambda>h. m \<le> len h) (partialHits hit)"
  show ?thesis
  proof (cases "(of_nat (length ?q) :: index_t) = 0")
    case True
    then show ?thesis
      by (simp add: strandAverage_def hitLengthLoop_eq spec_average_idx_def)
  next
    case False
    then have "?q \<noteq> []" by auto
    with False show ?thesis
      by (simp add: strandAverage_def hitLengthLoop_eq spec_average_idx_def word_greater_zero_iff)
  qed
qed

lemma unat_sum_list:
  fixes xs :: "index_t list"
  shows "sum_list (map unat xs) < 2 ^ 64 \<Longrightarrow> unat (sum_list xs) = sum_list (map unat xs)"
proof (induction xs)
  case Nil
  then show ?case by simp
next
  case (Cons x xs)
  then have "unat (sum_list xs) = sum_list (map unat xs)" by simp
  moreover from Cons.prems have "unat x + sum_list (map unat xs) < 2 ^ 64" by simp
  ultimately show ?case by (simp add: unat_add_lem[THEN iffD1])
qed

lemma strandAverage_spec:
  assumes "sum_list (spec_qualifying m hit) < 2 ^ 64"
    and "length (spec_qualifying m hit) < 2 ^ 64"
  shows "unat (snd (strandAverage m hit 0)) = spec_average m hit"
proof -
  let ?q = "filter (\<lambda>h. m \<le> len h) (partialHits hit)"
  have q: "spec_qualifying m hit = map unat (map len ?q)"
    by (simp add: spec_qualifying_def)
  have s: "unat (sum_list (map len ?q)) = sum_list (spec_qualifying m hit)"
    using assms(1) unfolding q by (rule unat_sum_list)
  have n: "unat (of_nat (length ?q) :: index_t) = length (spec_qualifying m hit)"
    using assms(2) by (simp add: q unat_of_nat)
  have z: "(of_nat (length ?q) :: index_t) > 0 \<longleftrightarrow> spec_qualifying m hit \<noteq> []"
    using n by (simp add: word_greater_zero_iff flip: unat_eq_0)
  show ?thesis
  proof (cases "spec_qualifying m hit = []")
    case True
    with z show ?thesis
      by (simp add: strandAverage_def hitLengthLoop_eq spec_average_def)
  next
    case False
    with z have "unat (snd (strandAverage m hit 0)) =
        unat (sum_list (map len ?q) div of_nat (length ?q))"
      by (simp add: strandAverage_def hitLengthLoop_eq)
    also have "\<dots> = sum_list (spec_qualifying m hit) div length (spec_qualifying m hit)"
      by (simp add: unat_div s n)
    finally show ?thesis using False by (simp add: spec_average_def)
  qed
qed

section \<open>Evaluating the small instance\<close>

lemmas ex_defs = ex_ext_def ex_ext_search_def ex_ext_taxa_def ex_ext_long_def
  ex_long_strand_def ex_long_state_def ex_state_def ex_strand_def ex_partialHit_def
  ex_coord_def ex_search_state_def

lemmas credit_unfold = coordLoop.simps creditCoord_def addHitToGenusMap_def
  addHitToSpeciesMap_def genusLoop.simps speciesLoop.simps genusIDOf_def speciesIDOf_def
  addWeightOf_def genusView_def speciesView_def genusEntry_def speciesEntry_def
  viewCount_def viewWeight_def Let_def

lemma ex_coordLoop_round0:
  "genusView (genusMap (coordLoop ex_ext 5 22 0 [ex_coord, ex_coord] 0 (ex_state []))) 7
     = Some (1, 49, 0)"
  "speciesView (genusMap (coordLoop ex_ext 5 22 0 [ex_coord, ex_coord] 0 (ex_state []))) 7 3
     = Some (1, 49, 0)"
  by (simp_all add: credit_unfold ex_defs)

lemmas go_unfold = go_def mateLoop.simps mateBody_def searchForwardAndReverse_def
  searchLoop.simps jointStep_def strandStep_def abandonLagging_def sel2_def upd2_def
  getHit_def setHit_def getForwardOrReverseHit_def strandAverage_def hitLengthLoop.simps
  offsetSize_def len_def size_hit_def compareBWTHits_def hitLoop.simps getCoords_def
  getGenomeIdx_def walkLoop.simps processHit_def earlyStop_def coordLoop.simps
  creditCoord_def addHitToGenusMap_def addHitToSpeciesMap_def genusLoop.simps
  speciesLoop.simps genusIDOf_def speciesIDOf_def addWeightOf_def
  genusReportLoop.simps speciesReportLoop.simps Let_def

lemma ex_go_two_hits:
  "\<exists>st'. go ex_ext 22 5 False (ex_state [ex_partialHit 20 24 30, ex_partialHit 10 13 30])
           = Some (Inr (st', 0)) \<and>
         map (\<lambda>h. length (h_coords h)) (partialHits (hit_obj st')) = [3, 4] \<and>
         genomeHitCnt st' = 5 \<and>
         map g_id (genusMap st') = [10, 11, 12, 23, 22]"
  by (simp add: go_unfold ex_defs)

text \<open>
  The end-to-end scenario of the specification: one forward partial hit of length 40 with
  three coordinates, two of species 3 and one of species 4, all of genus 7.
\<close>

lemma ex_go_scenario:
  "\<exists>st'. go ex_ext_taxa 22 5 False (ex_state [ex_partialHit 20 23 40]) = Some (Inr (st', 0)) \<and>
         sink st' = [(0, \<lparr>a_score = 1250, a_primary = 3, a_context = 7\<rparr>),
                     (0, \<lparr>a_score = 1250, a_primary = 4, a_context = 7\<rparr>)]"
  by (simp add: go_unfold ex_defs)

section \<open>Resolved and accepted coordinates\<close>

text \<open>
  C1, as stated: the coordinates resolved over all partial hits of a call never exceed
  \<open>khits\<close>, each resolution being bounded by the budget that is left. The bound passed to
  the resolver is \<open>khits\<close> less the size of \<^verbatim>\<open>_genomeHits\<close>, a list that is cleared for
  each mate and never filled, so every partial hit resolves up to \<open>khits\<close> coordinates.
  With \<open>khits = 5\<close> and two partial hits whose ranges hold 3 and 4 elements, 3 and then 4
  coordinates are resolved, the second time with a budget of 2 left: 7 in all.
\<close>

theorem coords_resolved_counterexample:
  "length (h_coords (partialHits (hit_obj
      (hitLoop ex_ext 22 5 True 2 0 (ex_state [ex_partialHit 10 13 30, ex_partialHit 20 24 30])))
      ! 0)) = 3 \<and>
   length (h_coords (partialHits (hit_obj
      (hitLoop ex_ext 22 5 True 2 0 (ex_state [ex_partialHit 10 13 30, ex_partialHit 20 24 30])))
      ! 1)) = 4 \<and>
   genomeHitCnt
      (hitLoop ex_ext 22 5 True 2 0 (ex_state [ex_partialHit 10 13 30, ex_partialHit 20 24 30]))
     = 5 \<and>
   (5 :: nat) < 3 + 4"
  by (simp add: go_unfold ex_defs)

text \<open>
  C1, amended: one resolution walks \<open>min (bot - top) (khits - |_genomeHits|)\<close> coordinates,
  which is at most \<open>khits\<close> since \<^verbatim>\<open>_genomeHits\<close> is empty during the whole loop over the
  partial hits; and for each mate the number of coordinates accepted for crediting
  (\<^verbatim>\<open>genomeHitCnt\<close>) never exceeds \<open>khits\<close>.
\<close>

theorem coordinate_budget:
  "length (snd (getCoords ext h hi khits gHits)) =
     unat (min (h_bot (partialHits h ! hi) - h_top (partialHits h ! hi))
               (khits - of_nat (length gHits))) \<and>
   length (snd (getCoords ext h hi khits [])) \<le> unat khits \<and>
   (mateBody ext minHitLen khits paired rdi st = Some (Inr st') \<longrightarrow>
      genomeHitCnt st' \<le> khits \<and> genomeHits st' = []) \<and>
   (genomeHits st = [] \<longrightarrow> genomeHits (hitLoop ext minHitLen khits lr offsetSz hi st) = [])"
proof -
  have "min (h_bot (partialHits h ! hi) - h_top (partialHits h ! hi)) khits \<le> khits"
    by simp
  then have "length (snd (getCoords ext h hi khits [])) \<le> unat khits"
    by (simp add: getCoords_length word_le_nat_alt)
  then show ?thesis
    using mateBody_budget[of ext minHitLen khits paired rdi st st']
    by (simp add: getCoords_length hitLoop_genomeHits)
qed

theorem coordinate_budget_witness:
  "\<exists>st'. mateBody ex_ext 22 5 False 0 (ex_state [ex_partialHit 20 24 30, ex_partialHit 10 13 30])
           = Some (Inr st') \<and>
         genomeHitCnt st' \<le> 5 \<and> genomeHits st' = [] \<and>
         genomeHits (ex_state []) = [] \<and>
         genomeHits (hitLoop ex_ext 22 5 True 0 0 (ex_state [])) = []"
proof -
  have "\<exists>st'. mateBody ex_ext 22 5 False 0
           (ex_state [ex_partialHit 20 24 30, ex_partialHit 10 13 30]) = Some (Inr st')"
    by (simp add: go_unfold ex_defs)
  then obtain st' where
    m: "mateBody ex_ext 22 5 False 0 (ex_state [ex_partialHit 20 24 30, ex_partialHit 10 13 30])
          = Some (Inr st')"
    by blast
  have e: "genomeHits (ex_state []) = []" by (simp add: ex_state_def)
  from m e
    coordinate_budget[where ext = ex_ext and minHitLen = 22 and khits = 5 and paired = False
      and rdi = 0 and st' = st' and lr = True and offsetSz = 0 and hi = 0
      and st = "ex_state [ex_partialHit 20 24 30, ex_partialHit 10 13 30]"]
    coordinate_budget[where ext = ex_ext and minHitLen = 22 and khits = 5
      and lr = True and offsetSz = 0 and hi = 0 and st = "ex_state []"]
  show ?thesis by blast
qed

section \<open>Early termination\<close>

text \<open>
  The test of line 183 is computed in \<^verbatim>\<open>size_t\<close>: the difference wraps around when less
  than 15 is left, and so does its square. Whenever the integer condition of the
  specification holds, the wrapped square is the integer square and the test succeeds.
\<close>

lemma earlyStop_of_gap:
  assumes "spec_gapExceeds st"
  shows "earlyStop st"
proof -
  define T where "T = sel2 (totalHitLength st) (if r_fw (hit_obj st) = False then 1 else 0)"
  define z where "z = uint T - uint (usedPortion st) - 15"
  have gap: "uint (secondBestScore st) + z * z < uint (bestScore st)"
    using assms by (simp add: spec_gapExceeds_def spec_remaining_def T_def z_def power2_eq_square)
  have w: "T - usedPortion st - 15 = word_of_int z"
    by (simp add: z_def)
  have s: "secondBestScore st + (T - usedPortion st - 15) * (T - usedPortion st - 15)
             = word_of_int (uint (secondBestScore st) + z * z)"
    by (simp add: w)
  have nn: "0 \<le> uint (secondBestScore st) + z * z" by simp
  have lt: "uint (secondBestScore st) + z * z < 2 ^ 64"
    using gap uint_lt2p[of "bestScore st"] by simp
  have roundtrip: "uint (word_of_int k :: size_t) = k" if "0 \<le> k" and "k < 2 ^ 64" for k
    using that by (simp add: uint_word_of_int_eq take_bit_int_eq_self)
  have "uint (secondBestScore st + (T - usedPortion st - 15) * (T - usedPortion st - 15))
          = uint (secondBestScore st) + z * z"
    unfolding s by (rule roundtrip[OF nn lt])
  with gap have "secondBestScore st + (T - usedPortion st - 15) * (T - usedPortion st - 15)
      < bestScore st"
    by (simp add: word_less_def)
  then show ?thesis by (simp add: earlyStop_def T_def)
qed

text \<open>
  C2: on the final mate (\<open>last_round\<close> is true exactly for the last mate), when a partial
  hit has been processed and the score gap exceeds the square of the remaining
  qualifying length minus 15, the loop over the partial hits returns the state reached
  after that hit: no later partial hit is looked at. This holds whatever is left of the
  read, less than 15 included.
\<close>

theorem early_termination:
  assumes "hi < offsetSz"
    and "\<not> len (partialHits (hit_obj st) ! hi) < minHitLen"
    and "getCoords ext (hit_obj st) hi khits (genomeHits st) = (hit', coords)"
    and "coords \<noteq> []"
    and "st' = processHit ext khits (len (partialHits (hit_obj st) ! hi)) hi coords
                 (st\<lparr>hit_obj := hit'\<rparr>)"
    and "spec_gapExceeds st'"
  shows "hitLoop ext minHitLen khits True offsetSz hi st = st'"
  using hitLoop_process[OF assms(1-5), where lr = True]
    earlyStop_of_gap[OF assms(6)]
  by simp

text \<open>
  With \<open>minHitLen = 10\<close>, two qualifying forward partial hits of lengths 40 and 12, total
  52: after the first one the scores are 625 and 0 and 12 is left, less than 15;
  \<open>625 - 0 > (12 - 15)\<^sup>2\<close>, the loop returns and the second hit keeps its empty
  coordinate list.
\<close>

theorem early_termination_witness:
  "spec_remaining (hitLoop ex_ext 10 5 True 2 0
       ((ex_state [ex_partialHit 20 21 40, ex_partialHit 10 11 12])\<lparr>totalHitLength := (52, 0)\<rparr>))
     = 12 \<and>
   h_coords (partialHits (hit_obj (hitLoop ex_ext 10 5 True 2 0
       ((ex_state [ex_partialHit 20 21 40, ex_partialHit 10 11 12])\<lparr>totalHitLength := (52, 0)\<rparr>)))
     ! 1) = [] \<and>
   hitLoop ex_ext 10 5 True 2 0
       ((ex_state [ex_partialHit 20 21 40, ex_partialHit 10 11 12])\<lparr>totalHitLength := (52, 0)\<rparr>)
     = processHit ex_ext 5 40 0 [\<lparr>c_ref = 20, c_off = 0, c_fw = False\<rparr>]
         ((ex_state [ex_partialHit 20 21 40, ex_partialHit 10 11 12])
            \<lparr>totalHitLength := (52, 0),
             hit_obj := ex_strand True
               [(ex_partialHit 20 21 40)\<lparr>h_coords := [\<lparr>c_ref = 20, c_off = 0, c_fw = False\<rparr>]\<rparr>,
                ex_partialHit 10 11 12]\<rparr>)"
proof -
  let ?st = "(ex_state [ex_partialHit 20 21 40, ex_partialHit 10 11 12])
               \<lparr>totalHitLength := (52, 0)\<rparr>"
  let ?c = "[\<lparr>c_ref = 20, c_off = 0, c_fw = False\<rparr>]"
  let ?hit' = "ex_strand True [(ex_partialHit 20 21 40)\<lparr>h_coords := ?c\<rparr>, ex_partialHit 10 11 12]"
  let ?st' = "processHit ex_ext 5 (len (partialHits (hit_obj ?st) ! 0)) 0 ?c
                (?st\<lparr>hit_obj := ?hit'\<rparr>)"
  have h1: "(0::nat) < 2" by simp
  have h2: "\<not> len (partialHits (hit_obj ?st) ! 0) < 10"
    by (simp add: ex_defs len_def)
  have h3: "getCoords ex_ext (hit_obj ?st) 0 5 (genomeHits ?st) = (?hit', ?c)"
    by (simp add: go_unfold ex_defs)
  have h4: "?c \<noteq> []" by simp
  have h6: "spec_gapExceeds ?st'"
    by (simp add: spec_gapExceeds_def spec_remaining_def go_unfold ex_defs)
  have r: "spec_remaining ?st' = 12"
    by (simp add: spec_remaining_def go_unfold ex_defs)
  have c: "h_coords (partialHits (hit_obj ?st') ! 1) = []"
    by (simp add: go_unfold ex_defs)
  have l: "len (partialHits (hit_obj ?st) ! 0) = 40"
    by (simp add: ex_defs len_def)
  from early_termination[OF h1 h2 h3 h4 refl h6] r c show ?thesis
    unfolding l by simp
qed

section \<open>Per-round deduplication\<close>

text \<open>
  C3: however many coordinates of one round map to a genus (or to a species under it),
  the count and the weighted count of the entry either stay as they were or grow by 1
  and by the weight of the round's partial hit. An absent entry counts as 0. The round
  index is the position of a partial hit in the list of one read strand; it has to fit
  the 32-bit time stamp in which the round is stored.
\<close>

theorem dedup_per_round:
  assumes "hi < 2 ^ 32"
  shows "(let gm = genusMap st; gm' = genusMap (coordLoop ext maxG L hi coords k st);
              w = addWeightOf L
          in ((viewCount (genusView gm' g) = viewCount (genusView gm g) \<and>
               viewWeight (genusView gm' g) = viewWeight (genusView gm g)) \<or>
              (viewCount (genusView gm' g) = viewCount (genusView gm g) + 1 \<and>
               viewWeight (genusView gm' g) = viewWeight (genusView gm g) + w)) \<and>
             ((viewCount (speciesView gm' g s) = viewCount (speciesView gm g s) \<and>
               viewWeight (speciesView gm' g s) = viewWeight (speciesView gm g s)) \<or>
              (viewCount (speciesView gm' g s) = viewCount (speciesView gm g s) + 1 \<and>
               viewWeight (speciesView gm' g s) = viewWeight (speciesView gm g s) + w)))"
  using coordLoop_genusView[OF assms, of ext maxG L coords k st g]
    coordLoop_speciesView[OF assms, of ext maxG L coords k st g s]
    creditView_stats[of "of_nat hi" "addWeightOf L" "genusView (genusMap st) g"]
    creditView_stats[of "of_nat hi" "addWeightOf L" "speciesView (genusMap st) g s"]
  unfolding Let_def by metis

theorem dedup_per_round_witness:
  "(0::nat) < 2 ^ 32 \<and>
   viewCount (genusView (genusMap (coordLoop ex_ext 5 22 0 [ex_coord, ex_coord] 0 (ex_state []))) 7)
     = viewCount (genusView (genusMap (ex_state [])) 7) + 1 \<and>
   viewWeight (speciesView (genusMap (coordLoop ex_ext 5 22 0 [ex_coord, ex_coord] 0 (ex_state []))) 7 3)
     = viewWeight (speciesView (genusMap (ex_state [])) 7 3) + addWeightOf 22"
proof -
  have h: "(0::nat) < 2 ^ 32" by simp
  show ?thesis
    using h dedup_per_round[OF h, of "ex_state []" ex_ext 5 22 "[ex_coord, ex_coord]" 0 7 3]
    by (simp add: ex_coordLoop_round0)
       (simp add: viewCount_def viewWeight_def genusView_def speciesView_def genusEntry_def
          ex_state_def addWeightOf_def)
qed

section \<open>The score returned by the species credit\<close>

text \<open>
  C4: \<^verbatim>\<open>addHitToSpeciesMap\<close> returns the weighted count of the genus entry it is given when
  the species entry exists and its stamp is not the round, the weight itself when the
  species entry is new, and 0 when the species entry exists and its stamp is the round.
  The genus entry it is given is the one \<^verbatim>\<open>addHitToGenusMap\<close> has just updated, found
  at the returned index, and the species credit leaves the genus entry's weighted
  count as it is: the returned count is the count after the update.
\<close>

theorem addHitToSpeciesMap_returns:
  "snd (addHitToSpeciesMap gc sid hi w) =
     (case speciesEntry gc sid of
        None \<Rightarrow> w
      | Some e \<Rightarrow> if ucast (sp_timeStamp e) \<noteq> hi then g_weightedCount gc else 0) \<and>
   g_weightedCount (fst (addHitToSpeciesMap gc sid hi w)) = g_weightedCount gc \<and>
   genusEntry (fst (addHitToGenusMap gm gid hi w)) gid =
     Some (fst (addHitToGenusMap gm gid hi w) ! snd (addHitToGenusMap gm gid hi w))"
proof -
  have "snd (addHitToSpeciesMap gc sid hi w) =
     (case speciesEntry gc sid of
        None \<Rightarrow> w
      | Some e \<Rightarrow> if ucast (sp_timeStamp e) \<noteq> hi then g_weightedCount gc else 0)"
    by (auto simp: addHitToSpeciesMap_eq Let_def speciesEntry_def speciesEntry_index)
  moreover have "g_weightedCount (fst (addHitToSpeciesMap gc sid hi w)) = g_weightedCount gc"
    by (rule addHitToSpeciesMap_fields)
  moreover have "genusEntry (fst (addHitToGenusMap gm gid hi w)) gid =
     Some (fst (addHitToGenusMap gm gid hi w) ! snd (addHitToGenusMap gm gid hi w))"
    using addHitToGenusMap_index[of gm gid hi w] by (simp add: genusEntry_index)
  ultimately show ?thesis by simp
qed

section \<open>What is reported\<close>

text \<open>
  C5: when \<^verbatim>\<open>go\<close> returns, the sink should hold one result for every species entry of every
  genus entry, with the species id, the genus id and the sum of the two weighted counts.
  Line 203 adds the two \<^verbatim>\<open>uint32_t\<close> counts before the sum becomes a 64-bit score, so the
  sum wraps at \<open>2^32\<close>. For a read of length 70000 with one forward partial hit of length
  46356 and one coordinate, the genus entry and its species entry both have weighted
  count \<open>46341\<^sup>2 = 2147488281\<close>; their sum is 4294976562 and the reported score is 9266.
\<close>

theorem go_score_wraps:
  "\<exists>st'. go ex_ext_long 22 5 False (ex_long_state [ex_partialHit 7 8 46356])
           = Some (Inr (st', 0)) \<and>
         map g_weightedCount (genusMap st') = [2147488281] \<and>
         map sp_weightedCount (speciesMap (genusMap st' ! 0)) = [2147488281] \<and>
         sink st' = [(0, \<lparr>a_score = 9266, a_primary = 0, a_context = 7\<rparr>)] \<and>
         spec_results (genusMap st') = [(0, \<lparr>a_score = 4294976562, a_primary = 0, a_context = 7\<rparr>)]"
  by (simp add: go_unfold ex_defs spec_results_def)

section \<open>Stepping the scan offset\<close>

lemma getHit_setHit: "getHit (setHit H rdi fwi h) rdi fwi = h"
  by (simp add: getHit_def setHit_def)

text \<open>
  C6, as stated: when the last partial hit is longer than 10 and shorter than \<open>minHitLen\<close>
  the offset goes back by 10, and in every other case, a last hit of length at most 10
  included, it goes forward by 1. With \<open>minHitLen = 22\<close>, the offset at 30 and a last hit
  of length 5 the offset stays at 30.
\<close>

theorem adjustOffset_short_hit_counterexample:
  "r_cur (adjustOffset 22 10
      \<lparr>r_fw = True, r_len = 100, r_cur = 30, r_done = False,
        partialHits = [\<lparr>h_top = 0, h_bot = 1, h_len = 5, h_bwoff = 25, h_coords = []\<rparr>]\<rparr>
      \<lparr>h_top = 0, h_bot = 1, h_len = 5, h_bwoff = 25, h_coords = []\<rparr>) = 30 \<and>
   (30 :: index_t) \<noteq> 30 + 1"
  by (simp add: adjustOffset_def setOffset_def len_def)

text \<open>
  C6, amended: after a step of a strand that is not done and that the primitive has not
  completed, with \<open>L\<close> the length of the most recent partial hit: the offset goes back by
  10 when \<open>10 < L < minHitLen\<close>, goes forward by 1 when \<open>10 < L\<close> and \<open>minHitLen \<le> L\<close>, and
  stays where the primitive left it when \<open>L \<le> 10\<close>.
\<close>

theorem strandStep_offset:
  assumes "\<not> sel2 (s_done s) fwi"
    and "partialSearch ext rdi (fwi = 0) (getHit (s_hits s) rdi fwi) (s_rnd s) = (hit1, rnd1)"
    and "\<not> r_done hit1"
    and "offsetSize hit1 \<noteq> 0"
  shows "\<exists>s'. strandStep ext minHitLen 10 rdlen rdi fwi s = Inr s' \<and>
           r_cur (getHit (s_hits s') rdi fwi) =
             (let L = len (partialHits hit1 ! (offsetSize hit1 - 1))
              in if L > 10 \<and> L < minHitLen then r_cur hit1 - 10
                 else if L > 10 then r_cur hit1 + 1
                 else r_cur hit1)"
  using assms
  by (auto simp add: strandStep_def Let_def getHit_setHit adjustOffset_def setOffset_def)

theorem strandStep_offset_witness:
  "\<exists>s'. strandStep ex_ext_search 22 10 100 0 0 ex_search_state = Inr s' \<and>
         r_cur (getHit (s_hits s') 0 0) = 20"
proof -
  let ?hit1 = "\<lparr>r_fw = True, r_len = 100, r_cur = 30, r_done = False,
      partialHits = [\<lparr>h_top = 0, h_bot = 1, h_len = 12, h_bwoff = 18, h_coords = []\<rparr>]\<rparr>"
  have h1: "\<not> sel2 (s_done ex_search_state) 0"
    by (simp add: sel2_def ex_search_state_def)
  have h2: "partialSearch ex_ext_search 0 ((0::nat) = 0) (getHit (s_hits ex_search_state) 0 0)
      (s_rnd ex_search_state) = (?hit1, ())"
    by (simp add: ex_defs getHit_def)
  have h3: "\<not> r_done ?hit1" by simp
  have h4: "offsetSize ?hit1 \<noteq> 0" by (simp add: offsetSize_def)
  show ?thesis
    using strandStep_offset[OF h1 h2 h3 h4, of 22 100]
    by (simp add: offsetSize_def len_def)
qed

section \<open>Choosing the strand\<close>

text \<open>
  C7: the strand returned is the forward one exactly when the forward average is
  strictly greater than the reverse average, the average of a strand being the sum of
  the lengths of its partial hits of length at least \<open>minHitLen\<close> divided by their number
  (integer division), and 0 when there is none; equal averages give the reverse strand.
  Sum, count and quotient are \<^verbatim>\<open>index_t\<close> values; when the sums and the counts fit
  \<^verbatim>\<open>index_t\<close> they are the sums, counts and quotients of natural numbers.
\<close>

theorem strand_selection:
  "fst (getForwardOrReverseHit minHitLen H rdi (0, 0)) =
     (if spec_average_idx minHitLen (getHit H rdi 0) > spec_average_idx minHitLen (getHit H rdi 1)
      then 0 else 1) \<and>
   (sum_list (spec_qualifying minHitLen (getHit H rdi 0)) < 2 ^ 64 \<and>
    length (spec_qualifying minHitLen (getHit H rdi 0)) < 2 ^ 64 \<and>
    sum_list (spec_qualifying minHitLen (getHit H rdi 1)) < 2 ^ 64 \<and>
    length (spec_qualifying minHitLen (getHit H rdi 1)) < 2 ^ 64 \<longrightarrow>
    fst (getForwardOrReverseHit minHitLen H rdi (0, 0)) =
      (if spec_average minHitLen (getHit H rdi 0) > spec_average minHitLen (getHit H rdi 1)
       then 0 else 1))"
proof -
  have sel: "fst (getForwardOrReverseHit minHitLen H rdi (0, 0)) =
          (if snd (strandAverage minHitLen (getHit H rdi 0) 0)
                > snd (strandAverage minHitLen (getHit H rdi 1) 0) then 0 else 1)"
    by (simp add: getForwardOrReverseHit_def split: prod.splits)
  have idx: "fst (getForwardOrReverseHit minHitLen H rdi (0, 0)) =
     (if spec_average_idx minHitLen (getHit H rdi 0) > spec_average_idx minHitLen (getHit H rdi 1)
      then 0 else 1)"
    using sel unfolding strandAverage_idx .
  have nat: "fst (getForwardOrReverseHit minHitLen H rdi (0, 0)) =
      (if spec_average minHitLen (getHit H rdi 0) > spec_average minHitLen (getHit H rdi 1)
       then 0 else 1)"
    if "sum_list (spec_qualifying minHitLen (getHit H rdi 0)) < 2 ^ 64"
      and "length (spec_qualifying minHitLen (getHit H rdi 0)) < 2 ^ 64"
      and "sum_list (spec_qualifying minHitLen (getHit H rdi 1)) < 2 ^ 64"
      and "length (spec_qualifying minHitLen (getHit H rdi 1)) < 2 ^ 64"
    using sel unfolding word_less_nat_alt strandAverage_spec[OF that(1,2)]
      strandAverage_spec[OF that(3,4)] .
  from idx nat show ?thesis by blast
qed

text \<open>
  Forward hits of lengths 30 and 12, reverse hits of lengths 45 and 45, \<open>minHitLen = 22\<close>:
  the averages are 30 and 45 and the reverse strand is returned. With one hit of length
  30 on each strand the averages are equal and the reverse strand is returned again.
\<close>

theorem strand_selection_witness:
  "spec_average 22 (ex_strand True [ex_partialHit 0 1 30, ex_partialHit 0 1 12]) = 30 \<and>
   spec_average 22 (ex_strand False [ex_partialHit 0 1 45, ex_partialHit 0 1 45]) = 45 \<and>
   fst (getForwardOrReverseHit 22
          ((ex_strand True [ex_partialHit 0 1 30, ex_partialHit 0 1 12],
            ex_strand False [ex_partialHit 0 1 45, ex_partialHit 0 1 45]),
           (ex_strand True [], ex_strand False [])) 0 (0, 0)) = 1 \<and>
   fst (getForwardOrReverseHit 22
          ((ex_strand True [ex_partialHit 0 1 30], ex_strand False [ex_partialHit 0 1 30]),
           (ex_strand True [], ex_strand False [])) 0 (0, 0)) = 1"
proof -
  let ?f = "ex_strand True [ex_partialHit 0 1 30, ex_partialHit 0 1 12]"
  let ?r = "ex_strand False [ex_partialHit 0 1 45, ex_partialHit 0 1 45]"
  let ?f' = "ex_strand True [ex_partialHit 0 1 30]"
  let ?r' = "ex_strand False [ex_partialHit 0 1 30]"
  let ?H = "((?f, ?r), (ex_strand True [], ex_strand False []))"
  let ?K = "((?f', ?r'), (ex_strand True [], ex_strand False []))"
  have g: "getHit ?H 0 0 = ?f" "getHit ?H 0 1 = ?r" "getHit ?K 0 0 = ?f'" "getHit ?K 0 1 = ?r'"
    by (simp_all add: getHit_def)
  have a: "spec_qualifying 22 ?f = [30]" "spec_qualifying 22 ?r = [45, 45]"
    "spec_qualifying 22 ?f' = [30]" "spec_qualifying 22 ?r' = [30]"
    by (simp_all add: spec_qualifying_def ex_defs len_def)
  have v: "spec_average 22 ?f = 30" "spec_average 22 ?r = 45"
    "spec_average 22 ?f' = 30" "spec_average 22 ?r' = 30"
    unfolding spec_average_def a by (simp_all flip: numeral_2_eq_2)
  have h: "sum_list (spec_qualifying 22 (getHit ?H 0 0)) < 2 ^ 64 \<and>
    length (spec_qualifying 22 (getHit ?H 0 0)) < 2 ^ 64 \<and>
    sum_list (spec_qualifying 22 (getHit ?H 0 1)) < 2 ^ 64 \<and>
    length (spec_qualifying 22 (getHit ?H 0 1)) < 2 ^ 64"
    unfolding g a by simp
  have k: "sum_list (spec_qualifying 22 (getHit ?K 0 0)) < 2 ^ 64 \<and>
    length (spec_qualifying 22 (getHit ?K 0 0)) < 2 ^ 64 \<and>
    sum_list (spec_qualifying 22 (getHit ?K 0 1)) < 2 ^ 64 \<and>
    length (spec_qualifying 22 (getHit ?K 0 1)) < 2 ^ 64"
    unfolding g a by simp
  have "fst (getForwardOrReverseHit 22 ?H 0 (0, 0)) = 1"
    using strand_selection[of 22 ?H 0, THEN conjunct2, rule_format, OF h] unfolding g v by simp
  moreover have "fst (getForwardOrReverseHit 22 ?K 0 (0, 0)) = 1"
    using strand_selection[of 22 ?K 0, THEN conjunct2, rule_format, OF k] unfolding g v by simp
  ultimately show ?thesis using v by simp
qed

section \<open>The weight of a partial hit\<close>

lemma addWeightOf_mod:
  assumes "15 \<le> unat L"
  shows "unat (addWeightOf L) = ((unat L - 15)\<^sup>2) mod 2 ^ 32"
proof -
  have le: "(15::64 word) \<le> L" using assms by (simp add: word_le_nat_alt)
  have a: "unat (L - 15) = unat L - 15" using le by (simp add: unat_sub)
  have b: "unat ((L - 15) * (L - 15)) = ((unat L - 15) * (unat L - 15)) mod 2 ^ 64"
    by (simp add: unat_word_ariths a)
  have "unat (addWeightOf L) = unat ((L - 15) * (L - 15)) mod 2 ^ 32"
    by (simp add: addWeightOf_def unsigned_ucast_eq take_bit_eq_mod)
  also have "\<dots> = ((unat L - 15) * (unat L - 15)) mod 2 ^ 32"
    unfolding b by (rule mod_mod_cancel) simp
  finally show ?thesis by (simp add: power2_eq_square)
qed

lemma addWeightOf_exact:
  assumes "15 \<le> unat L" "unat L < 65551"
  shows "unat (addWeightOf L) = (unat L - 15)\<^sup>2"
proof -
  have "unat L - 15 < 2 ^ 16" using assms by simp
  then have "(unat L - 15)\<^sup>2 < (2 ^ 16)\<^sup>2"
    by (intro power_strict_mono) simp_all
  then have "(unat L - 15)\<^sup>2 < 2 ^ 32" by simp
  then show ?thesis using addWeightOf_mod[OF assms(1)] by simp
qed

text \<open>
  Within \<open>16 \<le> L \<le> 65550\<close> the weight is \<open>(L - 15)\<^sup>2\<close>, and a partial hit shorter than
  \<open>minHitLen\<close> is skipped with the state unchanged.
\<close>

lemma creditCoord_weight:
  assumes "16 \<le> unat hit_len" and "unat hit_len \<le> 65550"
  shows "\<exists>w. unat w = (unat hit_len - 15)\<^sup>2 \<and>
           genusView (genusMap (creditCoord ext hit_len hi st coord)) (genusIDOf ext coord) =
             Some (creditView (of_nat hi) w (genusView (genusMap st) (genusIDOf ext coord))) \<and>
           speciesView (genusMap (creditCoord ext hit_len hi st coord)) (genusIDOf ext coord)
               (speciesIDOf ext coord) =
             Some (creditView (of_nat hi) w
                     (speciesView (genusMap st) (genusIDOf ext coord) (speciesIDOf ext coord)))"
  using addWeightOf_exact[of hit_len] assms
  by (intro exI[where x = "addWeightOf hit_len"])
     (simp add: creditCoord_genusView creditCoord_speciesView)

text \<open>
  C8: a processed partial hit of length \<open>L \<ge> 16\<close> should credit \<open>(L - 15)\<^sup>2\<close>, exactly.
  Line 158 takes the product in \<^verbatim>\<open>size_t\<close> and casts it to \<^verbatim>\<open>uint32_t\<close>. For a read of
  length 70000 with one forward partial hit of length 65551 and one coordinate, the hit
  is processed with the default \<open>minHitLen = 22\<close>, the square is \<open>65536\<^sup>2 = 2^32\<close>, the weight
  is 0, and the genus entry and the species entry of the coordinate are created with
  weighted count 0 and reported with score 0.
\<close>

theorem go_weight_truncated:
  "\<exists>st'. go ex_ext_long 22 5 False (ex_long_state [ex_partialHit 7 8 65551])
           = Some (Inr (st', 0)) \<and>
         usedPortion st' = 65551 \<and> genomeHitCnt st' = 1 \<and>
         map g_count (genusMap st') = [1] \<and>
         map g_weightedCount (genusMap st') = [0] \<and>
         map sp_weightedCount (speciesMap (genusMap st' ! 0)) = [0] \<and>
         sink st' = [(0, \<lparr>a_score = 0, a_primary = 0, a_context = 7\<rparr>)] \<and>
         unat (addWeightOf 65551) = 0 \<and> (65551 - 15 :: nat)\<^sup>2 = 4294967296"
  by (simp add: go_unfold ex_defs)

section \<open>Genus entries of weight zero\<close>

text \<open>
  C9: line 194 asserts that every genus entry has a weighted count above 0 when the
  results are reported. With \<open>minHitLen = 15\<close> a partial hit of length 15 is processed
  and its weight is \<open>(15 - 15)\<^sup>2 = 0\<close>: the genus entry it creates has weighted count 0 and
  is reported with score 0.
\<close>

theorem go_zero_weight_genus:
  "\<exists>st'. go ex_ext 15 5 False (ex_state [ex_partialHit 7 8 15]) = Some (Inr (st', 0)) \<and>
         map g_weightedCount (genusMap st') = [0] \<and>
         sink st' = [(0, \<lparr>a_score = 0, a_primary = 0, a_context = 7\<rparr>)]"
  by (simp add: go_unfold ex_defs)

section \<open>The mate index of a report\<close>

text \<open>
  C10: every result that a call of \<^verbatim>\<open>go\<close> adds to the sink is reported with mate index 0,
  for unpaired and for paired reads.
\<close>

theorem go_reports_mate_zero:
  assumes "go ext minHitLen khits paired st = Some (Inr (st', rc))"
  shows "\<exists>rs. sink st' = sink st @ rs \<and> (\<forall>r \<in> set rs. fst r = 0)"
proof -
  have "\<forall>r \<in> set (reportsOf (genusMap st')). fst r = 0"
    by (auto simp add: reportsOf_def)
  with go_sink(1)[OF assms] show ?thesis by blast
qed

theorem go_reports_mate_zero_witness:
  "\<exists>st' rs. go ex_ext_taxa 22 5 True (ex_state [ex_partialHit 20 23 40]) = Some (Inr (st', 0)) \<and>
            sink st' = sink (ex_state [ex_partialHit 20 23 40]) @ rs \<and> length rs = 2 \<and>
            (\<forall>r \<in> set rs. fst r = 0)"
proof -
  have "\<exists>st'. go ex_ext_taxa 22 5 True (ex_state [ex_partialHit 20 23 40]) = Some (Inr (st', 0)) \<and>
          length (sink st') = 2"
    by (simp add: go_unfold ex_defs)
  then obtain st' where
    g: "go ex_ext_taxa 22 5 True (ex_state [ex_partialHit 20 23 40]) = Some (Inr (st', 0))" and
    l: "length (sink st') = 2"
    by blast
  from go_reports_mate_zero[OF g] obtain rs where
    r: "sink st' = sink (ex_state [ex_partialHit 20 23 40]) @ rs" "\<forall>r \<in> set rs. fst r = 0"
    by blast
  from r(1) l have "length rs = 2" by (simp add: ex_state_def)
  with g r show ?thesis by blast
qed

end
